theory Spec2Isabelle
  imports Main
begin

section \<open>Data model of the main scene\<close>

text \<open>
  The scene imports its configuration from \<^verbatim>\<open>constants/constants.js\<close>. The values the board
  logic reads are taken as a parameter: the grid dimensions and the two adjacency offset
  tables of the staggered grid.
\<close>

record constants =
  GRID_WIDTH :: nat
  GRID_HEIGHT :: nat
  ADJACENT_CIRCLE_OFFSETS_RIGHT_LEANING :: "(int \<times> int) list"
  ADJACENT_CIRCLE_OFFSETS_LEFT_LEANING :: "(int \<times> int) list"

text \<open>
  A circle is a host game object on which \<^verbatim>\<open>createNewCircle\<close> sets \<^verbatim>\<open>color\<close>, \<^verbatim>\<open>gridX\<close> and
  \<^verbatim>\<open>gridY\<close>. The host's \<^verbatim>\<open>active\<close> flag is true from creation until \<^verbatim>\<open>destroy()\<close> clears it.
  Grid coordinates are only ever assigned loop indices and sums of them, so they are
  naturals; offsets between them are computed in \<open>int\<close>.
\<close>

record circle =
  color :: nat
  gridX :: nat
  gridY :: nat
  active :: bool

text \<open>
  \<^verbatim>\<open>createMenu\<close> is called with fixed texts at scene creation and with the last score and
  the high score when the countdown ends.
\<close>

datatype menu = StartMenu | EndMenu int int

datatype error = TypeError

text \<open>
  Circles are objects compared by reference (\<^verbatim>\<open>===\<close>, \<^verbatim>\<open>includes\<close>) and mutated in place
  (\<^verbatim>\<open>gridY\<close>, \<^verbatim>\<open>active\<close>), so the scene keeps a store from references to circles; the
  board, the chain and the similar-colour list hold references. \<open>nextId\<close> is the next
  unused reference. \<open>rnd k\<close> is the colour the host's random generator picks for the
  circle created as number \<open>k\<close>.
\<close>

record scene =
  heap :: "nat \<Rightarrow> circle"
  nextId :: nat
  rnd :: "nat \<Rightarrow> nat"
  board :: "nat list list"
  selectedCircles :: "nat list"
  allSimilarColorCircles :: "nat list"
  loopCreated :: bool
  score :: int
  highScore :: int
  currentPointsToAdd :: int
  boardRefillHappening :: bool
  gameIsRunning :: bool
  pointerBodyEnabled :: bool
  menu :: "menu option"

section \<open>Creating and destroying circles\<close>

text \<open>
  \<^verbatim>\<open>createNewCircle(x, y, gridY)\<close>: the argument \<open>y\<close> enters the screen position only.
\<close>

definition createNewCircle :: "nat \<Rightarrow> int \<Rightarrow> nat \<Rightarrow> scene \<Rightarrow> nat \<times> scene" where
  "createNewCircle x y gy s =
     (let i = nextId s;
          circle = \<lparr>color = rnd s i, gridX = x, gridY = gy, active = True\<rparr>
      in (i, s\<lparr>heap := (heap s)(i := circle), nextId := Suc i\<rparr>))"

text \<open>The host's \<^verbatim>\<open>circle.destroy()\<close>.\<close>

definition destroy :: "nat \<Rightarrow> scene \<Rightarrow> scene" where
  "destroy c s = s\<lparr>heap := (heap s)(c := (heap s c)\<lparr>active := False\<rparr>)\<rparr>"

section \<open>Chain selection\<close>

definition isValidNextCircle :: "constants \<Rightarrow> scene \<Rightarrow> nat \<Rightarrow> bool" where
  "isValidNextCircle K s c =
     (if length (selectedCircles s) = 0 then True
      else
        (let lastCircle = heap s (last (selectedCircles s));
             circle = heap s c;
             xOffset = int (gridX circle) - int (gridX lastCircle);
             yOffset = int (gridY circle) - int (gridY lastCircle);
             isValidAdjacentCircle =
               (if gridY lastCircle mod 2 = 0
                then list_ex (\<lambda>coord. fst coord = xOffset \<and> snd coord = yOffset)
                       (ADJACENT_CIRCLE_OFFSETS_RIGHT_LEANING K)
                else list_ex (\<lambda>coord. fst coord = xOffset \<and> snd coord = yOffset)
                       (ADJACENT_CIRCLE_OFFSETS_LEFT_LEANING K))
         in isValidAdjacentCircle \<and> color lastCircle = color circle))"

text \<open>
  \<^verbatim>\<open>selectedCircles[length - 2]\<close> reads index \<open>-1\<close> of a one-element chain, which is
  \<^verbatim>\<open>undefined\<close> and equal to no circle.
\<close>

definition isBackTracking :: "scene \<Rightarrow> nat \<Rightarrow> bool" where
  "isBackTracking s c =
     (if length (selectedCircles s) \<le> 0 then False
      else if length (selectedCircles s) < 2 then False
      else selectedCircles s ! (length (selectedCircles s) - 2) = c)"

definition updatePointsToBeAdded :: "int \<Rightarrow> scene \<Rightarrow> scene" where
  "updatePointsToBeAdded pointsToAdd s =
     s\<lparr>currentPointsToAdd := currentPointsToAdd s + pointsToAdd\<rparr>"

definition resetPointsToBeAdded :: "scene \<Rightarrow> scene" where
  "resetPointsToBeAdded s = s\<lparr>currentPointsToAdd := 0\<rparr>"

definition addPoints :: "int \<Rightarrow> scene \<Rightarrow> scene" where
  "addPoints pointsToAdd s = s\<lparr>score := score s + pointsToAdd\<rparr>"

definition addCircleToSelectedChain :: "nat \<Rightarrow> scene \<Rightarrow> scene" where
  "addCircleToSelectedChain c s =
     updatePointsToBeAdded 1 (s\<lparr>selectedCircles := selectedCircles s @ [c]\<rparr>)"

text \<open>\<^verbatim>\<open>pop()\<close> of an empty chain gives \<^verbatim>\<open>undefined\<close>, whose \<^verbatim>\<open>color\<close> cannot be read.\<close>

definition removeCircleFromChain :: "scene \<Rightarrow> error + scene" where
  "removeCircleFromChain s =
     (let s1 = s\<lparr>loopCreated := False\<rparr>
      in if selectedCircles s1 = [] then Inl TypeError
         else Inr (updatePointsToBeAdded (- 1)
                (s1\<lparr>selectedCircles := butlast (selectedCircles s1)\<rparr>)))"

definition setAllSimilarColoredCirclesToSelectedCircles :: "nat \<Rightarrow> scene \<Rightarrow> scene" where
  "setAllSimilarColoredCirclesToSelectedCircles col s =
     s\<lparr>allSimilarColorCircles := filter (\<lambda>c. color (heap s c) = col) (concat (board s))\<rparr>"

definition handleLoopCreated :: "nat \<Rightarrow> scene \<Rightarrow> scene" where
  "handleLoopCreated c s =
     addCircleToSelectedChain c
       (setAllSimilarColoredCirclesToSelectedCircles (color (heap s c))
          (s\<lparr>loopCreated := True\<rparr>))"

text \<open>
  The overlap callback registered by \<^verbatim>\<open>addOnCollisionHandler\<close>, run by the host each time
  the pointer body overlaps circle \<open>c\<close>.
\<close>

definition onOverlap :: "constants \<Rightarrow> nat \<Rightarrow> scene \<Rightarrow> error + scene" where
  "onOverlap K c s =
     (if isValidNextCircle K s c then
        (if isBackTracking s c then removeCircleFromChain s
         else if c \<notin> set (selectedCircles s) \<and> \<not> loopCreated s
           then Inr (addCircleToSelectedChain c s)
         else if c \<in> set (selectedCircles s) \<and> \<not> loopCreated s
           then Inr (handleLoopCreated c s)
         else Inr s)
      else Inr s)"

text \<open>A sequence of overlap events, stopping at the first exception.\<close>

fun onOverlaps :: "constants \<Rightarrow> nat list \<Rightarrow> scene \<Rightarrow> error + scene" where
  "onOverlaps K [] s = Inr s"
| "onOverlaps K (c # cs) s =
     (case onOverlap K c s of Inl e \<Rightarrow> Inl e | Inr s1 \<Rightarrow> onOverlaps K cs s1)"

section \<open>Board compaction\<close>

text \<open>
  The \<^verbatim>\<open>for\<close> loop of \<^verbatim>\<open>updateBoard\<close> over one column, from the last index to the first:
  the list argument is the column read bottom-up. The loop also writes \<^verbatim>\<open>null\<close> into the
  slots of destroyed circles; that array is replaced by \<^verbatim>\<open>addNewCirclesToColumn\<close> before
  anything reads it, so the column stays a list of references here.
\<close>

fun scanColumn ::
  "nat list \<Rightarrow> (nat \<Rightarrow> circle) \<Rightarrow> nat \<Rightarrow> nat list \<Rightarrow> (nat \<Rightarrow> circle) \<times> nat list" where
  "scanColumn [] h spacesToMove remainingCircles = (h, remainingCircles)"
| "scanColumn (curCircle # upper) h spacesToMove remainingCircles =
     (let (h1, spacesToMove1) =
            (if active (h curCircle) = False then (h, spacesToMove + 1)
             else if spacesToMove > 0
               then (h(curCircle := (h curCircle)\<lparr>gridY := gridY (h curCircle) + spacesToMove\<rparr>),
                     spacesToMove)
             else (h, spacesToMove));
          remainingCircles1 =
            (if active (h1 curCircle) \<noteq> False then remainingCircles @ [curCircle]
             else remainingCircles)
      in scanColumn upper h1 spacesToMove1 remainingCircles1)"

text \<open>The \<^verbatim>\<open>for\<close> loop of \<^verbatim>\<open>addNewCirclesToColumn\<close>, over the values of \<^verbatim>\<open>gridY\<close>.\<close>

fun spawnCircles :: "nat \<Rightarrow> int \<Rightarrow> nat list \<Rightarrow> scene \<Rightarrow> nat list \<times> scene" where
  "spawnCircles curColumnIndex spacesToMoveDown [] s = ([], s)"
| "spawnCircles curColumnIndex spacesToMoveDown (gy # gys) s =
     (let (newCircle, s1) = createNewCircle curColumnIndex (int gy - spacesToMoveDown) gy s;
          (newCircles, s2) = spawnCircles curColumnIndex spacesToMoveDown gys s1
      in (newCircle # newCircles, s2))"

text \<open>
  \<^verbatim>\<open>remainingCircles\<close> arrives bottom-up and is reversed. The only caller has read
  \<^verbatim>\<open>board[curColumnIndex]\<close> before, so the assignment is to an existing index.
\<close>

definition addNewCirclesToColumn :: "constants \<Rightarrow> nat \<Rightarrow> nat list \<Rightarrow> scene \<Rightarrow> scene" where
  "addNewCirclesToColumn K curColumnIndex remainingCircles s =
     (let spacesToMoveDown = int (GRID_HEIGHT K) - int (length remainingCircles);
          (newCircles, s1) =
             spawnCircles curColumnIndex spacesToMoveDown [0 ..< nat spacesToMoveDown] s
      in s1\<lparr>board := (board s1)[curColumnIndex := newCircles @ rev remainingCircles],
            boardRefillHappening := False\<rparr>)"

text \<open>
  The body of the \<^verbatim>\<open>forEach\<close> of \<^verbatim>\<open>updateBoard\<close> for one column index. A column index
  outside the board reads \<^verbatim>\<open>undefined.length\<close>.
\<close>

definition updateColumn :: "constants \<Rightarrow> nat \<Rightarrow> scene \<Rightarrow> error + scene" where
  "updateColumn K column s =
     (if column < length (board s) then
        (let curColumn = board s ! column;
             (h, remainingCircles) = scanColumn (rev curColumn) (heap s) 0 []
         in Inr (addNewCirclesToColumn K column remainingCircles (s\<lparr>heap := h\<rparr>)))
      else Inl TypeError)"

fun updateBoard :: "constants \<Rightarrow> nat list \<Rightarrow> scene \<Rightarrow> error + scene" where
  "updateBoard K [] s = Inr s"
| "updateBoard K (column # columnsToAdjust) s =
     (case updateColumn K column s of
        Inl e \<Rightarrow> Inl e
      | Inr s1 \<Rightarrow> updateBoard K columnsToAdjust s1)"

section \<open>Committing a chain\<close>

text \<open>The columns of the committed circles, each once, in order of first occurrence.\<close>

fun collectColumns :: "(nat \<Rightarrow> circle) \<Rightarrow> nat list \<Rightarrow> nat list \<Rightarrow> nat list" where
  "collectColumns h [] columnsToAdjust = columnsToAdjust"
| "collectColumns h (c # cs) columnsToAdjust =
     collectColumns h cs
       (if gridX (h c) \<notin> set columnsToAdjust then columnsToAdjust @ [gridX (h c)]
        else columnsToAdjust)"

text \<open>
  The synchronous part of \<^verbatim>\<open>clearAllSelectedCircles\<close>: it returns the scene and
  \<^verbatim>\<open>columnsToAdjust\<close>, and has started one shrink tween for each element of the
  scene's \<open>selectedCircles\<close>. Reading \<^verbatim>\<open>selectedCircles[0].color\<close> of an empty list raises.
  In a loop the assignment makes the chain and the similar-colour list one array; nothing
  writes through either name before the chain is replaced by a new empty array.
\<close>

definition clearAllSelectedCircles :: "scene \<Rightarrow> error + scene \<times> nat list" where
  "clearAllSelectedCircles s =
     (let s1 = (if loopCreated s then s\<lparr>selectedCircles := allSimilarColorCircles s\<rparr> else s);
          s2 = resetPointsToBeAdded (s1\<lparr>boardRefillHappening := True, loopCreated := False\<rparr>);
          n = int (length (selectedCircles s2))
      in if selectedCircles s2 = [] then Inl TypeError
         else Inr (addPoints (if n \<ge> 10 then n * 2 else n) s2,
                   collectColumns (heap s2) (selectedCircles s2) []))"

text \<open>
  The completion callback of one shrink tween: the host destroys the circle, then the
  closure counts the completion and, when the count equals the current chain length,
  compacts the board and empties the chain.
\<close>

definition shrinkComplete ::
  "constants \<Rightarrow> nat list \<Rightarrow> nat \<Rightarrow> scene \<times> nat \<Rightarrow> error + scene \<times> nat" where
  "shrinkComplete K columnsToAdjust c st =
     (let s1 = destroy c (fst st);
          completedTweens = snd st + 1
      in if completedTweens = length (selectedCircles s1) then
           (case updateBoard K columnsToAdjust s1 of
              Inl e \<Rightarrow> Inl e
            | Inr s2 \<Rightarrow> Inr (s2\<lparr>selectedCircles := []\<rparr>, completedTweens))
         else Inr (s1, completedTweens))"

text \<open>The shrink tweens of one commit completing in the order they were started.\<close>

fun runShrinkTweens ::
  "constants \<Rightarrow> nat list \<Rightarrow> nat list \<Rightarrow> scene \<times> nat \<Rightarrow> error + scene \<times> nat" where
  "runShrinkTweens K columnsToAdjust [] st = Inr st"
| "runShrinkTweens K columnsToAdjust (c # cs) st =
     (case shrinkComplete K columnsToAdjust c st of
        Inl e \<Rightarrow> Inl e
      | Inr st1 \<Rightarrow> runShrinkTweens K columnsToAdjust cs st1)"

text \<open>
  The \<^verbatim>\<open>pointerup\<close> handler. The result carries \<^verbatim>\<open>columnsToAdjust\<close> when shrink tweens
  were started.
\<close>

definition pointerup :: "scene \<Rightarrow> error + scene \<times> nat list option" where
  "pointerup s =
     (if gameIsRunning s then
        (let s1 = s\<lparr>pointerBodyEnabled := False\<rparr>;
             s2 = (if length (selectedCircles s1) = 1 then s1\<lparr>selectedCircles := []\<rparr> else s1)
         in if length (selectedCircles s2) > 1 then
              (case clearAllSelectedCircles s2 of
                 Inl e \<Rightarrow> Inl e
               | Inr (s3, columnsToAdjust) \<Rightarrow> Inr (s3, Some columnsToAdjust))
            else Inr (s2, None))
      else Inr (s, None))"

text \<open>
  A release followed, with no other handler in between, by the completion of every shrink
  tween it started. The tweens complete 200 ms after the release, and the host may run
  another \<^verbatim>\<open>pointerup\<close> or the end of the countdown before their callbacks; those
  executions are not values of this function.
\<close>

definition releaseGesture :: "constants \<Rightarrow> scene \<Rightarrow> error + scene" where
  "releaseGesture K s =
     (case pointerup s of
        Inl e \<Rightarrow> Inl e
      | Inr (s1, None) \<Rightarrow> Inr s1
      | Inr (s1, Some columnsToAdjust) \<Rightarrow>
          (case runShrinkTweens K columnsToAdjust (selectedCircles s1) (s1, 0) of
             Inl e \<Rightarrow> Inl e
           | Inr (s2, completedTweens) \<Rightarrow> Inr s2))"

definition pointerdown :: "scene \<Rightarrow> scene" where
  "pointerdown s =
     (if gameIsRunning s then
        (if \<not> boardRefillHappening s then s\<lparr>pointerBodyEnabled := True\<rparr> else s)
      else s)"

section \<open>Round lifecycle\<close>

definition initializeGameVariables :: "scene \<Rightarrow> scene" where
  "initializeGameVariables s =
     s\<lparr>selectedCircles := [], score := 0, currentPointsToAdd := 0,
       loopCreated := False, boardRefillHappening := False\<rparr>"

definition clearBoard :: "scene \<Rightarrow> scene" where
  "clearBoard s = (fold destroy (concat (board s)) s)\<lparr>board := [], selectedCircles := []\<rparr>"

definition clearPreviousGame :: "scene \<Rightarrow> scene" where
  "clearPreviousGame s = clearBoard s"

text \<open>The inner loop of \<^verbatim>\<open>createInitialBoard\<close> for row \<open>y\<close>, then the outer loop.\<close>

fun fillRow :: "nat \<Rightarrow> nat list \<Rightarrow> nat list list \<times> scene \<Rightarrow> nat list list \<times> scene" where
  "fillRow y [] bs = bs"
| "fillRow y (x # xs) bs =
     (let (c, s1) = createNewCircle x (int y) y (snd bs)
      in fillRow y xs ((fst bs)[x := fst bs ! x @ [c]], s1))"

fun fillRows ::
  "constants \<Rightarrow> nat list \<Rightarrow> nat list list \<times> scene \<Rightarrow> nat list list \<times> scene" where
  "fillRows K [] bs = bs"
| "fillRows K (y # ys) bs = fillRows K ys (fillRow y [0 ..< GRID_WIDTH K] bs)"

definition createInitialBoard :: "constants \<Rightarrow> scene \<Rightarrow> scene" where
  "createInitialBoard K s =
     (let (b, s1) = fillRows K [0 ..< GRID_HEIGHT K] (replicate (GRID_WIDTH K) [], s)
      in s1\<lparr>board := b\<rparr>)"

definition startTimer :: "scene \<Rightarrow> scene" where
  "startTimer s = s\<lparr>gameIsRunning := True\<rparr>"

definition startGame :: "constants \<Rightarrow> scene \<Rightarrow> scene" where
  "startGame K s = createInitialBoard K (startTimer (initializeGameVariables s))"

text \<open>The start button of a menu starts the game and removes the menu.\<close>

definition startButtonPressed :: "constants \<Rightarrow> scene \<Rightarrow> scene" where
  "startButtonPressed K s = (startGame K s)\<lparr>menu := None\<rparr>"

definition onCountdownComplete :: "scene \<Rightarrow> scene" where
  "onCountdownComplete s =
     (let s1 = clearPreviousGame (s\<lparr>gameIsRunning := False\<rparr>);
          s2 = (if score s1 > highScore s1 then s1\<lparr>highScore := score s1\<rparr> else s1)
      in s2\<lparr>menu := Some (EndMenu (score s2) (highScore s2))\<rparr>)"

text \<open>
  \<^verbatim>\<open>create()\<close> on a fresh scene object with random generator \<open>r\<close>. Fields the source leaves
  unassigned until later (\<^verbatim>\<open>board\<close>, \<^verbatim>\<open>allSimilarColorCircles\<close>, \<^verbatim>\<open>gameIsRunning\<close>) are
  empty and false. The pointer body is created enabled.
\<close>

definition create :: "(nat \<Rightarrow> nat) \<Rightarrow> scene" where
  "create r =
     (initializeGameVariables
        \<lparr>heap = (\<lambda>i. \<lparr>color = 0, gridX = 0, gridY = 0, active = False\<rparr>),
         nextId = 0, rnd = r, board = [], selectedCircles = [],
         allSimilarColorCircles = [], loopCreated = False, score = 0, highScore = 0,
         currentPointsToAdd = 0, boardRefillHappening = False, gameIsRunning = False,
         pointerBodyEnabled = True, menu = None\<rparr>)\<lparr>menu := Some StartMenu\<rparr>"

section \<open>The chain rule in the spec's words\<close>

text \<open>
  The spec's \<^verbatim>\<open>adjacentOffsets(row)\<close> and its rule for two consecutive circles of a chain:
  the later one lies at one of the offsets chosen by the earlier one's row parity, and
  both have the same colour. \<open>chainLinked\<close> asks this of every two consecutive circles.
\<close>

definition adjacentOffsets :: "constants \<Rightarrow> nat \<Rightarrow> (int \<times> int) list" where
  "adjacentOffsets K row =
     (if row mod 2 = 0 then ADJACENT_CIRCLE_OFFSETS_RIGHT_LEANING K
      else ADJACENT_CIRCLE_OFFSETS_LEFT_LEANING K)"

definition linked :: "constants \<Rightarrow> circle \<Rightarrow> circle \<Rightarrow> bool" where
  "linked K earlier later =
     ((int (gridX later) - int (gridX earlier), int (gridY later) - int (gridY earlier))
        \<in> set (adjacentOffsets K (gridY earlier)) \<and>
      color earlier = color later)"

fun chainLinked :: "constants \<Rightarrow> (nat \<Rightarrow> circle) \<Rightarrow> nat list \<Rightarrow> bool" where
  "chainLinked K h (a # b # cs) = (linked K (h a) (h b) \<and> chainLinked K h (b # cs))"
| "chainLinked K h cs = True"

text \<open>
  The two offset tables mirror each other: the negation of an offset of one row is an
  offset of the row it leads to.
\<close>

definition mirroredOffsets :: "constants \<Rightarrow> bool" where
  "mirroredOffsets K =
     (list_all (\<lambda>d. (- fst d, - snd d) \<in> set (adjacentOffsets K (if even (snd d) then 0 else 1)))
        (ADJACENT_CIRCLE_OFFSETS_RIGHT_LEANING K) \<and>
      list_all (\<lambda>d. (- fst d, - snd d) \<in> set (adjacentOffsets K (if even (snd d) then 1 else 0)))
        (ADJACENT_CIRCLE_OFFSETS_LEFT_LEANING K))"

section \<open>Well-formed boards\<close>

text \<open>
  A column has its slots when it holds \<open>h\<close> allocated circles whose \<open>gridX\<close> is the
  column and whose \<open>gridY\<close> is their row; it is live when none of them is destroyed. The
  board is well formed when every column has \<open>GRID_HEIGHT\<close> slots and is live.
\<close>

definition columnSlots :: "nat \<Rightarrow> scene \<Rightarrow> nat \<Rightarrow> bool" where
  "columnSlots h s x =
     (length (board s ! x) = h \<and>
      list_all (\<lambda>y. board s ! x ! y < nextId s \<and>
                    gridX (heap s (board s ! x ! y)) = x \<and>
                    gridY (heap s (board s ! x ! y)) = y) [0 ..< h])"

definition columnLive :: "scene \<Rightarrow> nat \<Rightarrow> bool" where
  "columnLive s x = list_all (\<lambda>c. active (heap s c)) (board s ! x)"

definition boardOk :: "constants \<Rightarrow> scene \<Rightarrow> bool" where
  "boardOk K s =
     list_all (\<lambda>x. columnSlots (GRID_HEIGHT K) s x \<and> columnLive s x)
       [0 ..< length (board s)]"

section \<open>Example configurations and scenes\<close>

text \<open>
  Modelled from the spec: the constants file is missing. The spec gives six neighbour
  offsets per row parity on the staggered grid; \<^verbatim>\<open>createNewCircle\<close> shifts the circles
  of even rows half a cell to the right, so an even row's neighbours in the rows above
  and below are at column offsets 0 and 1 and an odd row's at -1 and 0. This
  configuration is used for the concrete examples only.
\<close>

definition hexConstants :: "nat \<Rightarrow> nat \<Rightarrow> constants" where
  "hexConstants w h =
     \<lparr>GRID_WIDTH = w, GRID_HEIGHT = h,
      ADJACENT_CIRCLE_OFFSETS_RIGHT_LEANING =
        [(- 1, 0), (1, 0), (0, - 1), (1, - 1), (0, 1), (1, 1)],
      ADJACENT_CIRCLE_OFFSETS_LEFT_LEANING =
        [(- 1, 0), (1, 0), (- 1, - 1), (0, - 1), (- 1, 1), (0, 1)]\<rparr>"

text \<open>
  One column of height 5 with colours A, A, B, A, A from top to bottom, in which the
  circles of rows 1 and 3 have been destroyed.
\<close>

definition colorsAABAA :: "nat \<Rightarrow> nat" where
  "colorsAABAA k = (if k = 2 then 1 else 0)"

definition columnExample :: scene where
  "columnExample = destroy 3 (destroy 1 (startGame (hexConstants 1 5) (create colorsAABAA)))"

text \<open>
  A started game on two columns of height 3. Circle \<open>2 * y + x\<close> sits in column \<open>x\<close>,
  row \<open>y\<close>; all circles have colour 0 except circle 5.
\<close>

definition colorsExample :: "nat \<Rightarrow> nat" where
  "colorsExample k = (if k = 5 then 1 else 0)"

definition freshExample :: scene where
  "freshExample = startGame (hexConstants 2 3) (create colorsExample)"

text \<open>The same board after the two upper circles of column 0 have been destroyed.\<close>

definition refillExample :: scene where
  "refillExample = destroy 2 (destroy 0 freshExample)"

text \<open>
  The scenes after touching circle 0, after touching 0, 1, 3, and after closing the
  loop by touching 0 again.
\<close>

definition singleExample :: scene where
  "singleExample = addCircleToSelectedChain 0 freshExample"

definition chainExample :: scene where
  "chainExample = addCircleToSelectedChain 3 (addCircleToSelectedChain 1 singleExample)"

definition loopExample :: scene where
  "loopExample = handleLoopCreated 0 chainExample"

text \<open>
  A started game on two columns of height 5, all of one colour, and the chain of all
  ten circles, touched along a zigzag from the top.
\<close>

definition tenExample :: scene where
  "tenExample =
     fold addCircleToSelectedChain [0, 1, 3, 2, 4, 5, 7, 6, 8, 9]
       (startGame (hexConstants 2 5) (create (\<lambda>k. 0)))"

text \<open>
  The scene that \<^verbatim>\<open>pointerup\<close> leaves when the chain 0, 1, 3 is released: the three
  points are added and the shrink tweens of the three circles are running.
\<close>

definition committedExample :: scene where
  "committedExample =
     chainExample\<lparr>pointerBodyEnabled := False, selectedCircles := [0, 1, 3],
       boardRefillHappening := True, loopCreated := False, currentPointsToAdd := 0,
       score := 3\<rparr>"

section \<open>Properties of chain selection\<close>

lemma list_ex_offsets:
  "list_ex (\<lambda>coord. fst coord = x \<and> snd coord = y) offs = ((x, y) \<in> set offs)"
  by (induction offs) auto

lemma isValidNextCircle_linked:
  "selectedCircles s \<noteq> [] \<Longrightarrow>
   isValidNextCircle K s c = linked K (heap s (last (selectedCircles s))) (heap s c)"
  by (simp add: isValidNextCircle_def linked_def adjacentOffsets_def Let_def list_ex_offsets)

lemma isValidNextCircle_empty:
  "selectedCircles s = [] \<Longrightarrow> isValidNextCircle K s c"
  by (simp add: isValidNextCircle_def)

lemma chainLinked_snoc:
  "chainLinked K h (xs @ [c]) =
     (chainLinked K h xs \<and> (xs \<noteq> [] \<longrightarrow> linked K (h (last xs)) (h c)))"
  by (induction K h xs rule: chainLinked.induct) auto

lemma chainLinked_butlast:
  "chainLinked K h xs \<Longrightarrow> chainLinked K h (butlast xs)"
proof (cases xs rule: rev_cases)
  case Nil
  then show ?thesis by simp
next
  case (snoc ys y)
  assume "chainLinked K h xs"
  with snoc show ?thesis by (simp add: chainLinked_snoc)
qed

lemma chainLinked_nth:
  "chainLinked K h xs =
     (\<forall>i. Suc i < length xs \<longrightarrow> linked K (h (xs ! i)) (h (xs ! Suc i)))"
proof (induction K h xs rule: chainLinked.induct)
  case (1 K h a b cs)
  show ?case
  proof
    assume l: "chainLinked K h (a # b # cs)"
    show "\<forall>i. Suc i < length (a # b # cs) \<longrightarrow>
            linked K (h ((a # b # cs) ! i)) (h ((a # b # cs) ! Suc i))"
    proof (intro allI impI)
      fix i
      assume "Suc i < length (a # b # cs)"
      with l 1 show "linked K (h ((a # b # cs) ! i)) (h ((a # b # cs) ! Suc i))"
        by (cases i) auto
    qed
  next
    assume r: "\<forall>i. Suc i < length (a # b # cs) \<longrightarrow>
            linked K (h ((a # b # cs) ! i)) (h ((a # b # cs) ! Suc i))"
    from r [rule_format, of 0] have "linked K (h a) (h b)"
      by simp
    moreover have "\<forall>i. Suc i < length (b # cs) \<longrightarrow>
            linked K (h ((b # cs) ! i)) (h ((b # cs) ! Suc i))"
      using r [rule_format, of "Suc _"] by simp
    ultimately show "chainLinked K h (a # b # cs)"
      using 1 by simp
  qed
qed simp_all

lemma isBackTracking_iff:
  "isBackTracking s c =
     (2 \<le> length (selectedCircles s) \<and>
      selectedCircles s ! (length (selectedCircles s) - 2) = c)"
  by (auto simp: isBackTracking_def)

lemma onOverlap_backtrack:
  assumes "isValidNextCircle K s c" and "isBackTracking s c"
  shows "onOverlap K c s =
           Inr (s\<lparr>loopCreated := False, selectedCircles := butlast (selectedCircles s),
                  currentPointsToAdd := currentPointsToAdd s - 1\<rparr>)"
proof -
  from assms(2) have "selectedCircles s \<noteq> []"
    by (auto simp: isBackTracking_iff)
  with assms show ?thesis
    by (simp add: onOverlap_def removeCircleFromChain_def updatePointsToBeAdded_def Let_def)
qed

lemma onOverlap_append:
  assumes "isValidNextCircle K s c" and "\<not> isBackTracking s c"
    and "c \<notin> set (selectedCircles s)" and "\<not> loopCreated s"
  shows "onOverlap K c s =
           Inr (s\<lparr>selectedCircles := selectedCircles s @ [c],
                  currentPointsToAdd := currentPointsToAdd s + 1\<rparr>)"
  using assms
  by (simp add: onOverlap_def addCircleToSelectedChain_def updatePointsToBeAdded_def)

lemma onOverlap_loop:
  assumes "isValidNextCircle K s c" and "\<not> isBackTracking s c"
    and "c \<in> set (selectedCircles s)" and "\<not> loopCreated s"
  shows "onOverlap K c s =
           Inr (s\<lparr>loopCreated := True,
                  allSimilarColorCircles :=
                    filter (\<lambda>x. color (heap s x) = color (heap s c)) (concat (board s)),
                  selectedCircles := selectedCircles s @ [c],
                  currentPointsToAdd := currentPointsToAdd s + 1\<rparr>)"
  using assms
  by (simp add: onOverlap_def handleLoopCreated_def addCircleToSelectedChain_def
        updatePointsToBeAdded_def setAllSimilarColoredCirclesToSelectedCircles_def)

lemma onOverlap_ignored:
  assumes "\<not> isValidNextCircle K s c \<or> (\<not> isBackTracking s c \<and> loopCreated s)"
  shows "onOverlap K c s = Inr s"
  using assms by (auto simp: onOverlap_def)

lemma onOverlap_cases:
  obtains (ignored) "onOverlap K c s = Inr s"
  | (backtrack) "isValidNextCircle K s c" "isBackTracking s c"
      "onOverlap K c s =
         Inr (s\<lparr>loopCreated := False, selectedCircles := butlast (selectedCircles s),
                currentPointsToAdd := currentPointsToAdd s - 1\<rparr>)"
  | (append) "isValidNextCircle K s c" "\<not> isBackTracking s c" "\<not> loopCreated s"
      "c \<notin> set (selectedCircles s)"
      "onOverlap K c s =
         Inr (s\<lparr>selectedCircles := selectedCircles s @ [c],
                currentPointsToAdd := currentPointsToAdd s + 1\<rparr>)"
  | (loop) "isValidNextCircle K s c" "\<not> isBackTracking s c" "\<not> loopCreated s"
      "c \<in> set (selectedCircles s)"
      "onOverlap K c s =
         Inr (s\<lparr>loopCreated := True,
                allSimilarColorCircles :=
                  filter (\<lambda>x. color (heap s x) = color (heap s c)) (concat (board s)),
                selectedCircles := selectedCircles s @ [c],
                currentPointsToAdd := currentPointsToAdd s + 1\<rparr>)"
  using onOverlap_backtrack [of K s c] onOverlap_append [of K s c] onOverlap_loop [of K s c]
    onOverlap_ignored [of K s c]
  by blast

lemma onOverlap_total: "\<exists>s'. onOverlap K c s = Inr s'"
  by (cases K c s rule: onOverlap_cases) simp_all

lemma onOverlap_heap: "onOverlap K c s = Inr s' \<Longrightarrow> heap s' = heap s \<and> board s' = board s"
  by (cases K c s rule: onOverlap_cases) auto

lemma onOverlap_chainLinked:
  assumes "onOverlap K c s = Inr s'" and "chainLinked K (heap s) (selectedCircles s)"
  shows "chainLinked K (heap s') (selectedCircles s')"
proof (cases K c s rule: onOverlap_cases)
  case ignored
  with assms show ?thesis by simp
next
  case backtrack
  with assms show ?thesis by (auto simp: chainLinked_butlast)
next
  case append
  with assms show ?thesis
    by (auto simp: chainLinked_snoc isValidNextCircle_linked)
next
  case loop
  with assms show ?thesis
    by (auto simp: chainLinked_snoc isValidNextCircle_linked)
qed

lemma onOverlaps_chainLinked:
  assumes "chainLinked K (heap s) (selectedCircles s)"
  shows "\<exists>s'. onOverlaps K cs s = Inr s' \<and> heap s' = heap s \<and>
           chainLinked K (heap s') (selectedCircles s')"
  using assms
proof (induction cs arbitrary: s)
  case Nil
  then show ?case by simp
next
  case (Cons c cs)
  obtain s1 where s1: "onOverlap K c s = Inr s1"
    using onOverlap_total by blast
  have "chainLinked K (heap s1) (selectedCircles s1)"
    using onOverlap_chainLinked [OF s1 Cons.prems] .
  from Cons.IH [OF this] s1 onOverlap_heap [OF s1] show ?case
    by auto
qed

lemma mirroredOffsets_hexConstants: "mirroredOffsets (hexConstants w h)"
  by (simp add: mirroredOffsets_def hexConstants_def adjacentOffsets_def)

lemma adjacentOffsets_even:
  "adjacentOffsets K r =
     (if even r then ADJACENT_CIRCLE_OFFSETS_RIGHT_LEANING K
      else ADJACENT_CIRCLE_OFFSETS_LEFT_LEANING K)"
  by (simp add: adjacentOffsets_def even_iff_mod_2_eq_zero)

lemma linked_sym:
  assumes "mirroredOffsets K" and "linked K a b"
  shows "linked K b a"
proof -
  let ?dx = "int (gridX b) - int (gridX a)"
  let ?dy = "int (gridY b) - int (gridY a)"
  have col: "color a = color b"
    using assms(2) by (simp add: linked_def)
  have off: "(?dx, ?dy) \<in> set (adjacentOffsets K (gridY a))"
    using assms(2) by (simp add: linked_def)
  have neg: "(int (gridX a) - int (gridX b), int (gridY a) - int (gridY b)) = (- ?dx, - ?dy)"
    by simp
  have par: "even ?dy = (even (gridY b) = even (gridY a))"
    by simp
  have "(- ?dx, - ?dy) \<in> set (adjacentOffsets K (gridY b))"
  proof (cases "even (gridY a)")
    case True
    then have "(?dx, ?dy) \<in> set (ADJACENT_CIRCLE_OFFSETS_RIGHT_LEANING K)"
      using off by (simp add: adjacentOffsets_even)
    then have "(- ?dx, - ?dy) \<in> set (adjacentOffsets K (if even ?dy then 0 else 1))"
      using assms(1) by (auto simp: mirroredOffsets_def list_all_iff)
    then show ?thesis
      unfolding par adjacentOffsets_even using True by (cases "even (gridY b)") simp_all
  next
    case False
    then have "(?dx, ?dy) \<in> set (ADJACENT_CIRCLE_OFFSETS_LEFT_LEANING K)"
      using off by (simp add: adjacentOffsets_even)
    then have "(- ?dx, - ?dy) \<in> set (adjacentOffsets K (if even ?dy then 1 else 0))"
      using assms(1) by (auto simp: mirroredOffsets_def list_all_iff)
    then show ?thesis
      unfolding par adjacentOffsets_even using False by (cases "even (gridY b)") simp_all
  qed
  with col show ?thesis
    unfolding linked_def neg by simp
qed

lemma backtrack_target_valid:
  assumes "mirroredOffsets K" and "chainLinked K (heap s) (selectedCircles s)"
    and "2 \<le> length (selectedCircles s)"
  shows "isValidNextCircle K s (selectedCircles s ! (length (selectedCircles s) - 2))"
proof -
  let ?cs = "selectedCircles s"
  have ne: "?cs \<noteq> []"
    using assms(3) by auto
  have "Suc (length ?cs - 2) < length ?cs"
    using assms(3) by simp
  then have "linked K (heap s (?cs ! (length ?cs - 2))) (heap s (?cs ! Suc (length ?cs - 2)))"
    using assms(2) by (simp add: chainLinked_nth)
  moreover have "?cs ! Suc (length ?cs - 2) = last ?cs"
    using assms(3) ne by (simp add: last_conv_nth Suc_diff_Suc numeral_2_eq_2)
  ultimately have "linked K (heap s (last ?cs)) (heap s (?cs ! (length ?cs - 2)))"
    using linked_sym [OF assms(1)] by simp
  then show ?thesis
    using ne by (simp add: isValidNextCircle_linked)
qed

section \<open>Properties of compaction\<close>


lemma circle_gridY_same [simp]: "(r::circle)\<lparr>gridY := gridY r\<rparr> = r"
  by simp

lemma scanColumn_Cons:
  "scanColumn (c # upper) h sp rem =
     (if \<not> active (h c) then scanColumn upper h (Suc sp) rem
      else scanColumn upper (h(c := (h c)\<lparr>gridY := gridY (h c) + sp\<rparr>)) sp (rem @ [c]))"
  by (cases "sp = 0") (simp_all add: Let_def)

lemma scanColumn_remaining:
  "snd (scanColumn xs h sp rem) = rem @ filter (\<lambda>c. active (h c)) xs"
proof (induction xs arbitrary: h sp rem)
  case Nil
  show ?case by simp
next
  case (Cons c upper)
  show ?case
  proof (cases "active (h c)")
    case True
    have "filter (\<lambda>x. active ((h(c := (h c)\<lparr>gridY := gridY (h c) + sp\<rparr>)) x)) upper
            = filter (\<lambda>x. active (h x)) upper"
      by (rule filter_cong) auto
    with True Cons.IH show ?thesis
      by (simp add: scanColumn_Cons del: scanColumn.simps)
  next
    case False
    with Cons.IH show ?thesis
      by (simp add: scanColumn_Cons del: scanColumn.simps)
  qed
qed

lemma scanColumn_frame:
  "c \<notin> set xs \<Longrightarrow> fst (scanColumn xs h sp rem) c = h c"
proof (induction xs arbitrary: h sp rem)
  case Nil
  show ?case by simp
next
  case (Cons x upper)
  then show ?case
    by (simp add: scanColumn_Cons del: scanColumn.simps)
qed

lemma scanColumn_fields:
  "active (fst (scanColumn xs h sp rem) c) = active (h c) \<and>
   color (fst (scanColumn xs h sp rem) c) = color (h c) \<and>
   gridX (fst (scanColumn xs h sp rem) c) = gridX (h c)"
proof (induction xs arbitrary: h sp rem)
  case Nil
  show ?case by simp
next
  case (Cons x upper)
  show ?case
    by (simp add: scanColumn_Cons Cons.IH del: scanColumn.simps)
qed

lemma scanColumn_gridY:
  "distinct xs \<Longrightarrow> j < length xs \<Longrightarrow> active (h (xs ! j)) \<Longrightarrow>
   gridY (fst (scanColumn xs h sp rem) (xs ! j)) =
     gridY (h (xs ! j)) + sp + length (filter (\<lambda>c. \<not> active (h c)) (take j xs))"
proof (induction xs arbitrary: h sp rem j)
  case Nil
  then show ?case by simp
next
  case (Cons x upper)
  let ?h1 = "h(x := (h x)\<lparr>gridY := gridY (h x) + sp\<rparr>)"
  have act: "\<And>c. active (?h1 c) = active (h c)" by simp
  show ?case
  proof (cases j)
    case 0
    with Cons.prems show ?thesis
      by (simp add: scanColumn_Cons scanColumn_frame del: scanColumn.simps)
  next
    case (Suc j')
    with Cons.prems have j': "j' < length upper" and d: "distinct upper"
      and ne: "upper ! j' \<noteq> x" and al: "active (h (upper ! j'))"
      by auto
    show ?thesis
    proof (cases "active (h x)")
      case True
      have f: "filter (\<lambda>c. \<not> active (?h1 c)) (take j' upper) =
                 filter (\<lambda>c. \<not> active (h c)) (take j' upper)"
        by (rule filter_cong) auto
      have e: "?h1 (upper ! j') = h (upper ! j')"
        using ne by simp
      have "active (?h1 (upper ! j'))"
        using al e by simp
      from Cons.IH [where h = ?h1 and j = j' and sp = sp and rem = "rem @ [x]", OF d j' this]
      have "gridY (fst (scanColumn upper ?h1 sp (rem @ [x])) (upper ! j')) =
              gridY (h (upper ! j')) + sp
                + length (filter (\<lambda>c. \<not> active (h c)) (take j' upper))"
        unfolding f e .
      with True Suc show ?thesis
        by (simp add: scanColumn_Cons del: scanColumn.simps)
    next
      case False
      with Cons.IH [where h = h and j = j' and sp = "Suc sp" and rem = rem, OF d j' al] Suc
      show ?thesis
        by (simp add: scanColumn_Cons del: scanColumn.simps)
    qed
  qed
qed

lemma upt_from_Cons: "[n ..< Suc (n + k)] = n # [Suc n ..< Suc (n + k)]"
  by (rule upt_conv_Cons) simp

lemma spawnCircles_ids:
  "fst (spawnCircles col sp gys s) = [nextId s ..< nextId s + length gys]"
proof (induction gys arbitrary: s)
  case Nil
  show ?case by simp
next
  case (Cons gy gys)
  have "nextId (snd (createNewCircle col (int gy - sp) gy s)) = Suc (nextId s)"
    and "fst (createNewCircle col (int gy - sp) gy s) = nextId s"
    by (simp_all add: createNewCircle_def Let_def)
  then show ?case
    by (simp add: split_beta Cons.IH upt_from_Cons del: upt_Suc)
qed

lemma spawnCircles_scene:
  "snd (spawnCircles col sp gys s) =
     s\<lparr>heap := heap (snd (spawnCircles col sp gys s)), nextId := nextId s + length gys\<rparr>"
proof (induction gys arbitrary: s)
  case Nil
  show ?case by simp
next
  case (Cons gy gys)
  show ?case
    apply (simp add: createNewCircle_def Let_def split_beta)
    apply (subst Cons.IH)
    apply simp
    done
qed

lemma spawnCircles_old:
  "i < nextId s \<Longrightarrow> heap (snd (spawnCircles col sp gys s)) i = heap s i"
  by (induction gys arbitrary: s) (simp_all add: createNewCircle_def Let_def split_beta)

lemma spawnCircles_new:
  "nextId s \<le> i \<Longrightarrow> i < nextId s + length gys \<Longrightarrow>
   heap (snd (spawnCircles col sp gys s)) i =
     \<lparr>color = rnd s i, gridX = col, gridY = gys ! (i - nextId s), active = True\<rparr>"
proof (induction gys arbitrary: s)
  case Nil
  then show ?case by simp
next
  case (Cons gy gys)
  let ?s1 = "snd (createNewCircle col (int gy - sp) gy s)"
  have n1: "nextId ?s1 = Suc (nextId s)" and r1: "rnd ?s1 = rnd s"
    by (simp_all add: createNewCircle_def Let_def)
  show ?case
  proof (cases "i = nextId s")
    case True
    then have "heap (snd (spawnCircles col sp gys ?s1)) i = heap ?s1 i"
      by (intro spawnCircles_old) (simp add: n1)
    with True show ?thesis
      by (simp add: split_beta Let_def) (simp add: createNewCircle_def Let_def)
  next
    case False
    with Cons.prems have "nextId ?s1 \<le> i" "i < nextId ?s1 + length gys"
      by (simp_all add: n1)
    from Cons.IH [OF this] False Cons.prems show ?thesis
      by (simp add: split_beta Let_def n1 r1 nth_Cons')
  qed
qed


lemma nat_int_diff_eq: "nat (int a - int b) = a - b"
  by arith

lemma updateColumn_Inr:
  "col < length (board s) \<Longrightarrow> \<exists>s'. updateColumn K col s = Inr s'"
  by (simp add: updateColumn_def Let_def split_beta)

lemma updateColumn_error:
  "\<not> col < length (board s) \<Longrightarrow> updateColumn K col s = Inl TypeError"
  by (simp add: updateColumn_def)

lemma addNewCirclesToColumn_shape:
  "\<exists>h. addNewCirclesToColumn K col rem s =
     s\<lparr>heap := h, nextId := nextId s + (GRID_HEIGHT K - length rem),
       board := (board s)[col :=
          [nextId s ..< nextId s + (GRID_HEIGHT K - length rem)] @ rev rem],
       boardRefillHappening := False\<rparr>"
proof -
  let ?sp = "spawnCircles col (int (GRID_HEIGHT K) - int (length rem))
               [0 ..< GRID_HEIGHT K - length rem] s"
  have e: "snd ?sp = s\<lparr>heap := heap (snd ?sp),
                         nextId := nextId s + (GRID_HEIGHT K - length rem)\<rparr>"
    using spawnCircles_scene [of col _ "[0 ..< GRID_HEIGHT K - length rem]" s] by simp
  have i: "fst ?sp = [nextId s ..< nextId s + (GRID_HEIGHT K - length rem)]"
    by (simp add: spawnCircles_ids)
  have "addNewCirclesToColumn K col rem s =
          (snd ?sp)\<lparr>board := (board (snd ?sp))[col := fst ?sp @ rev rem],
                     boardRefillHappening := False\<rparr>"
    by (simp add: addNewCirclesToColumn_def Let_def split_beta nat_int_diff_eq)
  also have "\<dots> = (s\<lparr>heap := heap (snd ?sp),
                         nextId := nextId s + (GRID_HEIGHT K - length rem)\<rparr>)
                    \<lparr>board := (board s)[col := fst ?sp @ rev rem],
                     boardRefillHappening := False\<rparr>"
    by (subst e, subst (2) e) simp
  finally have "addNewCirclesToColumn K col rem s =
      s\<lparr>heap := heap (snd ?sp), nextId := nextId s + (GRID_HEIGHT K - length rem),
        board := (board s)[col :=
          [nextId s ..< nextId s + (GRID_HEIGHT K - length rem)] @ rev rem],
        boardRefillHappening := False\<rparr>"
    by (simp add: i)
  then show ?thesis
    by (rule exI [where x = "heap (snd ?sp)"])
qed

lemma addNewCirclesToColumn_heap_old:
  "i < nextId s \<Longrightarrow> heap (addNewCirclesToColumn K col rem s) i = heap s i"
  by (simp add: addNewCirclesToColumn_def Let_def split_beta spawnCircles_old)

lemma addNewCirclesToColumn_heap_new:
  assumes "nextId s \<le> i" and "i < nextId s + (GRID_HEIGHT K - length rem)"
  shows "heap (addNewCirclesToColumn K col rem s) i =
           \<lparr>color = rnd s i, gridX = col, gridY = i - nextId s, active = True\<rparr>"
proof -
  have "[0 ..< GRID_HEIGHT K - length rem] ! (i - nextId s) = i - nextId s"
    using assms by simp
  then show ?thesis
    using spawnCircles_new [of s i "[0 ..< GRID_HEIGHT K - length rem]" col
            "int (GRID_HEIGHT K) - int (length rem)"] assms
    by (simp add: addNewCirclesToColumn_def Let_def split_beta nat_int_diff_eq)
qed

lemma updateColumn_unfold:
  assumes "updateColumn K col s = Inr s'"
  shows "col < length (board s)"
    and "s' = addNewCirclesToColumn K col
                (rev (filter (\<lambda>c. active (heap s c)) (board s ! col)))
                (s\<lparr>heap := fst (scanColumn (rev (board s ! col)) (heap s) 0 [])\<rparr>)"
proof -
  show c: "col < length (board s)"
    using assms by (simp add: updateColumn_def split: if_splits)
  have "snd (scanColumn (rev (board s ! col)) (heap s) 0 []) =
          rev (filter (\<lambda>c. active (heap s c)) (board s ! col))"
    by (simp add: scanColumn_remaining rev_filter)
  then show "s' = addNewCirclesToColumn K col
                (rev (filter (\<lambda>c. active (heap s c)) (board s ! col)))
                (s\<lparr>heap := fst (scanColumn (rev (board s ! col)) (heap s) 0 [])\<rparr>)"
    using assms c by (simp add: updateColumn_def Let_def split_beta)
qed

lemma updateColumn_shape:
  assumes "updateColumn K col s = Inr s'"
  shows "\<exists>h. s' = s\<lparr>heap := h,
           nextId := nextId s +
             (GRID_HEIGHT K - length (filter (\<lambda>c. active (heap s c)) (board s ! col))),
           board := (board s)[col :=
              [nextId s ..< nextId s +
                 (GRID_HEIGHT K - length (filter (\<lambda>c. active (heap s c)) (board s ! col)))]
              @ filter (\<lambda>c. active (heap s c)) (board s ! col)],
           boardRefillHappening := False\<rparr>"
  using addNewCirclesToColumn_shape [of K col
          "rev (filter (\<lambda>c. active (heap s c)) (board s ! col))"
          "s\<lparr>heap := fst (scanColumn (rev (board s ! col)) (heap s) 0 [])\<rparr>"]
  unfolding updateColumn_unfold(2) [OF assms]
  by auto

lemma updateColumn_board:
  assumes "updateColumn K col s = Inr s'"
  shows "board s' = (board s)[col :=
           [nextId s ..< nextId s +
              (GRID_HEIGHT K - length (filter (\<lambda>c. active (heap s c)) (board s ! col)))]
           @ filter (\<lambda>c. active (heap s c)) (board s ! col)]"
  using updateColumn_shape [OF assms] by auto

lemma updateColumn_nextId:
  assumes "updateColumn K col s = Inr s'"
  shows "nextId s' = nextId s +
           (GRID_HEIGHT K - length (filter (\<lambda>c. active (heap s c)) (board s ! col)))"
  using updateColumn_shape [OF assms] by auto

lemma updateColumn_frame:
  assumes "updateColumn K col s = Inr s'"
  shows "s' = s\<lparr>heap := heap s', nextId := nextId s', board := board s',
               boardRefillHappening := False\<rparr>"
  using updateColumn_shape [OF assms] by auto

lemma updateColumn_heap_old:
  assumes "updateColumn K col s = Inr s'" and "i < nextId s"
  shows "heap s' i = fst (scanColumn (rev (board s ! col)) (heap s) 0 []) i"
  unfolding updateColumn_unfold(2) [OF assms(1)]
  using assms(2) by (simp add: addNewCirclesToColumn_heap_old)

lemma updateColumn_heap_new:
  assumes "updateColumn K col s = Inr s'" and "nextId s \<le> i" and "i < nextId s'"
  shows "heap s' i = \<lparr>color = rnd s i, gridX = col, gridY = i - nextId s, active = True\<rparr>"
proof -
  have "i < nextId s +
          (GRID_HEIGHT K - length (filter (\<lambda>c. active (heap s c)) (board s ! col)))"
    using assms(3) updateColumn_nextId [OF assms(1)] by simp
  then show ?thesis
    unfolding updateColumn_unfold(2) [OF assms(1)]
    using assms(2) by (simp add: addNewCirclesToColumn_heap_new)
qed


lemma filter_nth_position:
  assumes "i < length xs" and "P (xs ! i)"
  shows "filter P xs ! length (filter P (take i xs)) = xs ! i"
proof -
  have "xs = take i xs @ xs ! i # drop (Suc i) xs"
    using assms(1) by (rule id_take_nth_drop)
  then have "filter P xs = filter P (take i xs) @ xs ! i # filter P (drop (Suc i) xs)"
    using assms(2) by (metis filter.simps(2) filter_append)
  then show ?thesis
    by (simp add: nth_append)
qed

lemma count_split_at:
  assumes "i < length xs" and "\<not> Q (xs ! i)"
  shows "length (filter Q xs) =
           length (filter Q (take i xs)) + length (filter Q (drop (Suc i) xs))"
proof -
  have "xs = take i xs @ xs ! i # drop (Suc i) xs"
    using assms(1) by (rule id_take_nth_drop)
  then have "filter Q xs = filter Q (take i xs) @ filter Q (drop (Suc i) xs)"
    using assms(2) by (metis filter.simps(2) filter_append)
  then show ?thesis
    by simp
qed

lemma survivor_position:
  assumes "i < length xs" and "P (xs ! i)"
  shows "i + length (filter (\<lambda>c. \<not> P c) (drop (Suc i) xs)) =
           length (filter (\<lambda>c. \<not> P c) xs) + length (filter P (take i xs))"
proof -
  have "length (filter P (take i xs)) + length (filter (\<lambda>c. \<not> P c) (take i xs)) = i"
    using sum_length_filter_compl [of P "take i xs"] assms(1) by simp
  moreover have "length (filter (\<lambda>c. \<not> P c) xs) =
      length (filter (\<lambda>c. \<not> P c) (take i xs)) + length (filter (\<lambda>c. \<not> P c) (drop (Suc i) xs))"
    using assms by (intro count_split_at) simp_all
  ultimately show ?thesis
    by simp
qed

lemma scanColumn_column_gridY:
  assumes "distinct col" and "i < length col" and "active (h (col ! i))"
  shows "gridY (fst (scanColumn (rev col) h 0 []) (col ! i)) =
           gridY (h (col ! i)) + length (filter (\<lambda>c. \<not> active (h c)) (drop (Suc i) col))"
proof -
  let ?j = "length col - Suc i"
  have j: "?j < length (rev col)"
    using assms(2) by simp
  have n: "rev col ! ?j = col ! i"
    using assms(2) by (simp add: rev_nth)
  have t: "take ?j (rev col) = rev (drop (Suc i) col)"
    by (simp add: rev_drop)
  have "length (filter (\<lambda>c. \<not> active (h c)) (rev (drop (Suc i) col))) =
          length (filter (\<lambda>c. \<not> active (h c)) (drop (Suc i) col))"
    by (simp add: rev_filter [symmetric])
  with scanColumn_gridY [of "rev col" ?j h 0 "[]"] assms(1,3) j n t
  show ?thesis by simp
qed



lemma updateColumn_length:
  assumes "updateColumn K col s = Inr s'"
  shows "length (board s') = length (board s)"
  using updateColumn_board [OF assms] by simp

lemma updateColumn_other:
  assumes "updateColumn K col s = Inr s'" and "c \<noteq> col"
  shows "board s' ! c = board s ! c"
  using updateColumn_board [OF assms(1)] assms(2) by simp

lemma updateColumn_active_old:
  assumes "updateColumn K col s = Inr s'" and "i < nextId s"
  shows "active (heap s' i) = active (heap s i)"
  using updateColumn_heap_old [OF assms] by (simp add: scanColumn_fields)

lemma updateColumn_nextId_le:
  assumes "updateColumn K col s = Inr s'"
  shows "nextId s \<le> nextId s'"
  using updateColumn_nextId [OF assms] by simp

lemma updateColumn_column:
  assumes u: "updateColumn K col s = Inr s'"
    and len: "length (board s ! col) = GRID_HEIGHT K"
    and ids: "\<forall>i\<in>set (board s ! col). i < nextId s"
  shows "length (board s' ! col) = GRID_HEIGHT K"
    and "\<forall>i\<in>set (board s' ! col). active (heap s' i) \<and> i < nextId s'"
proof -
  let ?surv = "filter (\<lambda>c. active (heap s c)) (board s ! col)"
  let ?k = "GRID_HEIGHT K - length ?surv"
  have c: "col < length (board s)"
    using updateColumn_unfold(1) [OF u] .
  have b: "board s' ! col = [nextId s ..< nextId s + ?k] @ ?surv"
    using updateColumn_board [OF u] c by simp
  have n: "nextId s' = nextId s + ?k"
    using updateColumn_nextId [OF u] .
  have "length ?surv \<le> GRID_HEIGHT K"
    using length_filter_le [of "\<lambda>c. active (heap s c)" "board s ! col"] len by simp
  then show "length (board s' ! col) = GRID_HEIGHT K"
    by (simp add: b)
  show "\<forall>i\<in>set (board s' ! col). active (heap s' i) \<and> i < nextId s'"
  proof
    fix i
    assume "i \<in> set (board s' ! col)"
    then consider "nextId s \<le> i" "i < nextId s + ?k" | "i \<in> set ?surv"
      by (auto simp: b)
    then show "active (heap s' i) \<and> i < nextId s'"
    proof cases
      case 1
      then have "heap s' i = \<lparr>color = rnd s i, gridX = col, gridY = i - nextId s, active = True\<rparr>"
        using n by (intro updateColumn_heap_new [OF u]) simp_all
      with 1 n show ?thesis by simp
    next
      case 2
      then have "i < nextId s" and "active (heap s i)"
        using ids by simp_all
      then show ?thesis
        using updateColumn_active_old [OF u] n by simp
    qed
  qed
qed

lemma updateBoard_restores:
  assumes "\<forall>c<length (board s). length (board s ! c) = GRID_HEIGHT K \<and>
             (\<forall>i\<in>set (board s ! c). i < nextId s)"
    and "\<forall>c\<in>set cols. c < length (board s)"
    and "\<forall>c<length (board s). c \<notin> set cols \<longrightarrow> (\<forall>i\<in>set (board s ! c). active (heap s i))"
  shows "\<exists>s'. updateBoard K cols s = Inr s' \<and> length (board s') = length (board s) \<and>
           (\<forall>c<length (board s'). length (board s' ! c) = GRID_HEIGHT K \<and>
              (\<forall>i\<in>set (board s' ! c). active (heap s' i) \<and> i < nextId s'))"
  using assms
proof (induction cols arbitrary: s)
  case Nil
  then show ?case by simp
next
  case (Cons col cols)
  have c: "col < length (board s)"
    using Cons.prems(2) by simp
  then obtain s1 where u: "updateColumn K col s = Inr s1"
    using updateColumn_Inr by blast
  have l: "length (board s1) = length (board s)"
    using updateColumn_length [OF u] .
  have col1: "length (board s1 ! col) = GRID_HEIGHT K"
    "\<forall>i\<in>set (board s1 ! col). active (heap s1 i) \<and> i < nextId s1"
    using updateColumn_column [OF u] Cons.prems(1) c by simp_all
  have shape1: "\<forall>c<length (board s1). length (board s1 ! c) = GRID_HEIGHT K \<and>
             (\<forall>i\<in>set (board s1 ! c). i < nextId s1)"
  proof (intro allI impI)
    fix c
    assume "c < length (board s1)"
    show "length (board s1 ! c) = GRID_HEIGHT K \<and> (\<forall>i\<in>set (board s1 ! c). i < nextId s1)"
    proof (cases "c = col")
      case True
      with col1 show ?thesis by simp
    next
      case False
      then have "board s1 ! c = board s ! c"
        using updateColumn_other [OF u] by simp
      with Cons.prems(1) \<open>c < length (board s1)\<close> l updateColumn_nextId_le [OF u]
      show ?thesis by fastforce
    qed
  qed
  have cols1: "\<forall>c\<in>set cols. c < length (board s1)"
    using Cons.prems(2) l by simp
  have dead1: "\<forall>c<length (board s1). c \<notin> set cols \<longrightarrow>
                 (\<forall>i\<in>set (board s1 ! c). active (heap s1 i))"
  proof (intro allI impI)
    fix c
    assume cl: "c < length (board s1)" and cn: "c \<notin> set cols"
    show "\<forall>i\<in>set (board s1 ! c). active (heap s1 i)"
    proof (cases "c = col")
      case True
      with col1 show ?thesis by simp
    next
      case False
      then have e: "board s1 ! c = board s ! c"
        using updateColumn_other [OF u] by simp
      show ?thesis
      proof
        fix i
        assume "i \<in> set (board s1 ! c)"
        then have i: "i \<in> set (board s ! c)"
          using e by simp
        with Cons.prems(1) cl l have "i < nextId s"
          by simp
        moreover have "active (heap s i)"
          using Cons.prems(3) cl l cn False i by simp
        ultimately show "active (heap s1 i)"
          using updateColumn_active_old [OF u] by simp
      qed
    qed
  qed
  from Cons.IH [OF shape1 cols1 dead1] u l show ?case
    by simp
qed


section \<open>Evaluating the examples\<close>

lemma columnExample_board: "board columnExample = [[0, 1, 2, 3, 4]]"
  by code_simp

lemma columnExample_nextId: "nextId columnExample = 5"
  by code_simp

lemma columnExample_active:
  "map (\<lambda>c. active (heap columnExample c)) [0, 1, 2, 3, 4] = [True, False, True, False, True]"
  by code_simp

lemma columnExample_gridY:
  "map (\<lambda>c. gridY (heap columnExample c)) [0, 1, 2, 3, 4] = [0, 1, 2, 3, 4]"
  by code_simp

lemma columnExample_color:
  "map (\<lambda>c. color (heap columnExample c)) [0, 1, 2, 3, 4] = [0, 0, 1, 0, 0]"
  by code_simp

lemma refillExample_board: "board refillExample = [[0, 2, 4], [1, 3, 5]]"
  by code_simp

lemma refillExample_nextId: "nextId refillExample = 6"
  by code_simp

lemma refillExample_active:
  "map (\<lambda>c. active (heap refillExample c)) [0, 1, 2, 3, 4, 5] =
     [False, True, False, True, True, True]"
  by code_simp

lemma freshExample_empty: "selectedCircles freshExample = []"
  by code_simp

lemma freshExample_touches:
  "map_sum (\<lambda>e. e) selectedCircles (onOverlaps (hexConstants 2 3) [0, 1, 3, 2] freshExample)
     = Inr [0, 1, 3, 2]"
  by code_simp

text \<open>The example chains are what the overlap events build.\<close>

lemma onOverlap_appends:
  assumes "isValidNextCircle K s c \<and> \<not> isBackTracking s c \<and>
           c \<notin> set (selectedCircles s) \<and> \<not> loopCreated s"
  shows "onOverlap K c s = Inr (addCircleToSelectedChain c s)"
  using assms by (simp add: onOverlap_def)

lemma onOverlap_loops:
  assumes "isValidNextCircle K s c \<and> \<not> isBackTracking s c \<and>
           c \<in> set (selectedCircles s) \<and> \<not> loopCreated s"
  shows "onOverlap K c s = Inr (handleLoopCreated c s)"
  using assms by (simp add: onOverlap_def)

lemma singleExample_reached:
  "onOverlap (hexConstants 2 3) 0 freshExample = Inr singleExample"
  unfolding singleExample_def by (rule onOverlap_appends) code_simp

lemma chainExample_reached:
  "onOverlaps (hexConstants 2 3) [0, 1, 3] freshExample = Inr chainExample"
proof -
  have "onOverlap (hexConstants 2 3) 1 singleExample
          = Inr (addCircleToSelectedChain 1 singleExample)"
    by (rule onOverlap_appends) code_simp
  moreover have "onOverlap (hexConstants 2 3) 3 (addCircleToSelectedChain 1 singleExample)
          = Inr chainExample"
    unfolding chainExample_def by (rule onOverlap_appends) code_simp
  ultimately show ?thesis
    by (simp add: singleExample_reached)
qed

lemma loopExample_reached:
  "onOverlaps (hexConstants 2 3) [0, 1, 3, 0] freshExample = Inr loopExample"
proof -
  have "onOverlap (hexConstants 2 3) 1 singleExample
          = Inr (addCircleToSelectedChain 1 singleExample)"
    by (rule onOverlap_appends) code_simp
  moreover have "onOverlap (hexConstants 2 3) 3 (addCircleToSelectedChain 1 singleExample)
          = Inr chainExample"
    unfolding chainExample_def by (rule onOverlap_appends) code_simp
  moreover have "onOverlap (hexConstants 2 3) 0 chainExample = Inr loopExample"
    unfolding loopExample_def by (rule onOverlap_loops) code_simp
  ultimately show ?thesis
    by (simp add: singleExample_reached)
qed

lemma tenExample_reached:
  "map_sum (\<lambda>e. e) selectedCircles
     (onOverlaps (hexConstants 2 5) [0, 1, 3, 2, 4, 5, 7, 6, 8, 9]
        (startGame (hexConstants 2 5) (create (\<lambda>k. 0))))
     = Inr (selectedCircles tenExample)"
  by code_simp

lemma singleExample_chain: "selectedCircles singleExample = [0]"
  by code_simp

lemma singleExample_running: "gameIsRunning singleExample"
  by code_simp

lemma singleExample_points: "currentPointsToAdd singleExample = 1"
  by code_simp

lemma chainExample_chain: "selectedCircles chainExample = [0, 1, 3]"
  by code_simp

lemma chainExample_points: "currentPointsToAdd chainExample = 3"
  by code_simp

lemma chainExample_score: "score chainExample = 0"
  by code_simp

lemma chainExample_unlooped: "\<not> loopCreated chainExample"
  by code_simp

lemma chainExample_running: "gameIsRunning chainExample"
  by code_simp

lemma chainExample_valid:
  "isValidNextCircle (hexConstants 2 3) chainExample 1"
  "isValidNextCircle (hexConstants 2 3) chainExample 0"
  by code_simp+

lemma chainExample_board: "board chainExample = [[0, 2, 4], [1, 3, 5]]"
  by code_simp

lemma chainExample_nextId: "nextId chainExample = 6"
  by code_simp

lemma chainExample_color:
  "map (\<lambda>c. color (heap chainExample c)) [0, 1, 2, 3, 4, 5] = [0, 0, 0, 0, 0, 1]"
  by code_simp

lemma chainExample_gridX:
  "map (\<lambda>c. gridX (heap chainExample c)) [0, 1, 2, 3, 4, 5] = [0, 1, 0, 1, 0, 1]"
  by code_simp

lemma chainExample_active:
  "map (\<lambda>c. active (heap chainExample c)) [0, 1, 2, 3, 4, 5] =
     [True, True, True, True, True, True]"
  by code_simp

lemma loopExample_chain: "selectedCircles loopExample = [0, 1, 3, 0]"
  by code_simp

lemma loopExample_points: "currentPointsToAdd loopExample = 4"
  by code_simp

lemma loopExample_looped: "loopCreated loopExample"
  by code_simp

lemma loopExample_valid: "isValidNextCircle (hexConstants 2 3) loopExample 3"
  by code_simp

lemma tenExample_chain: "selectedCircles tenExample = [0, 1, 3, 2, 4, 5, 7, 6, 8, 9]"
  by code_simp

lemma tenExample_unlooped: "\<not> loopCreated tenExample"
  by code_simp

lemma chainExample_shape:
  "\<forall>x<length (board chainExample).
     length (board chainExample ! x) = GRID_HEIGHT (hexConstants 2 3) \<and>
     (\<forall>i\<in>set (board chainExample ! x).
        i < nextId chainExample \<and> active (heap chainExample i) \<and>
        gridX (heap chainExample i) = x)"
proof -
  have a: "active (heap chainExample 0)" "active (heap chainExample (Suc 0))"
    "active (heap chainExample 2)" "active (heap chainExample 3)"
    "active (heap chainExample 4)" "active (heap chainExample 5)"
    using chainExample_active by simp_all
  have g: "gridX (heap chainExample 0) = 0" "gridX (heap chainExample (Suc 0)) = Suc 0"
    "gridX (heap chainExample 2) = 0" "gridX (heap chainExample 3) = Suc 0"
    "gridX (heap chainExample 4) = 0" "gridX (heap chainExample 5) = Suc 0"
    using chainExample_gridX by simp_all
  show ?thesis
    by (simp add: chainExample_board chainExample_nextId hexConstants_def a g All_less_Suc)
qed

lemma freshExample_unlooped: "\<not> loopCreated freshExample"
  by code_simp

lemma freshExample_points: "currentPointsToAdd freshExample = 0"
  by code_simp

lemma loopExample_similar: "allSimilarColorCircles loopExample = [0, 2, 4, 1, 3]"
  by code_simp

lemma loopExample_score: "score loopExample = 0"
  by code_simp

section \<open>Properties of release, commit and round lifecycle\<close>

lemma updateColumn_fields:
  assumes "updateColumn K col s = Inr s'"
  shows "selectedCircles s' = selectedCircles s \<and> score s' = score s \<and>
         currentPointsToAdd s' = currentPointsToAdd s \<and> loopCreated s' = loopCreated s \<and>
         highScore s' = highScore s \<and> gameIsRunning s' = gameIsRunning s \<and>
         allSimilarColorCircles s' = allSimilarColorCircles s \<and>
         pointerBodyEnabled s' = pointerBodyEnabled s \<and> menu s' = menu s \<and> rnd s' = rnd s"
  by (subst (1 2 3 4 5 6 7 8 9 10) updateColumn_frame [OF assms]) simp

lemma updateBoard_fields:
  assumes "updateBoard K cols s = Inr s'"
  shows "selectedCircles s' = selectedCircles s \<and> score s' = score s \<and>
         currentPointsToAdd s' = currentPointsToAdd s \<and> loopCreated s' = loopCreated s \<and>
         highScore s' = highScore s \<and> gameIsRunning s' = gameIsRunning s \<and>
         allSimilarColorCircles s' = allSimilarColorCircles s \<and>
         pointerBodyEnabled s' = pointerBodyEnabled s \<and> menu s' = menu s \<and> rnd s' = rnd s"
  using assms
proof (induction cols arbitrary: s)
  case Nil
  then show ?case by simp
next
  case (Cons col cols)
  then obtain s1 where u: "updateColumn K col s = Inr s1" and r: "updateBoard K cols s1 = Inr s'"
    by (auto split: sum.splits)
  from Cons.IH [OF r] updateColumn_fields [OF u] show ?case
    by simp
qed

lemma updateBoard_Inr:
  assumes "\<forall>c\<in>set cols. c < length (board s)"
  shows "\<exists>s'. updateBoard K cols s = Inr s'"
  using assms
proof (induction cols arbitrary: s)
  case Nil
  then show ?case by simp
next
  case (Cons col cols)
  then obtain s1 where u: "updateColumn K col s = Inr s1"
    using updateColumn_Inr [of col s K] by auto
  have "\<forall>c\<in>set cols. c < length (board s1)"
    using Cons.prems updateColumn_length [OF u] by simp
  from Cons.IH [OF this] u show ?case
    by simp
qed

lemma collectColumns_set:
  "set (collectColumns h cs acc) = set acc \<union> (\<lambda>c. gridX (h c)) ` set cs"
  by (induction cs arbitrary: acc) auto

lemma collectColumns_distinct:
  "distinct acc \<Longrightarrow> distinct (collectColumns h cs acc)"
  by (induction cs arbitrary: acc) auto

lemma destroy_fields [simp]:
  "selectedCircles (destroy c s) = selectedCircles s"
  "board (destroy c s) = board s"
  "score (destroy c s) = score s"
  "highScore (destroy c s) = highScore s"
  "currentPointsToAdd (destroy c s) = currentPointsToAdd s"
  "loopCreated (destroy c s) = loopCreated s"
  "gameIsRunning (destroy c s) = gameIsRunning s"
  "nextId (destroy c s) = nextId s"
  by (simp_all add: destroy_def)

lemma fold_destroy_fields [simp]:
  "selectedCircles (fold destroy cs s) = selectedCircles s"
  "board (fold destroy cs s) = board s"
  "score (fold destroy cs s) = score s"
  "highScore (fold destroy cs s) = highScore s"
  "currentPointsToAdd (fold destroy cs s) = currentPointsToAdd s"
  "loopCreated (fold destroy cs s) = loopCreated s"
  "gameIsRunning (fold destroy cs s) = gameIsRunning s"
  "nextId (fold destroy cs s) = nextId s"
  by (induction cs arbitrary: s; simp)+

lemma fold_destroy_active:
  "active (heap (fold destroy cs s) c) = (active (heap s c) \<and> c \<notin> set cs)"
  by (induction cs arbitrary: s) (auto simp: destroy_def)

lemma runShrinkTweens_latch:
  assumes "selectedCircles s = pre @ cs" and "cs \<noteq> []" and "length pre = k"
  shows "runShrinkTweens K cols cs (s, k) =
           (case updateBoard K cols (fold destroy cs s) of
              Inl e \<Rightarrow> Inl e
            | Inr s2 \<Rightarrow> Inr (s2\<lparr>selectedCircles := []\<rparr>, length (pre @ cs)))"
  using assms
proof (induction cs arbitrary: s k pre)
  case Nil
  then show ?case by simp
next
  case (Cons c cs)
  show ?case
  proof (cases "cs = []")
    case True
    with Cons.prems show ?thesis
      by (simp add: shrinkComplete_def Let_def split: sum.splits)
  next
    case False
    have "selectedCircles (destroy c s) = (pre @ [c]) @ cs"
      using Cons.prems(1) by simp
    from Cons.IH [OF this False, of "Suc k"] Cons.prems False show ?thesis
      by (simp add: shrinkComplete_def Let_def split: sum.splits)
  qed
qed

lemma clearAllSelectedCircles_commit:
  assumes "committed = (if loopCreated s then allSimilarColorCircles s else selectedCircles s)"
    and "committed \<noteq> []"
  shows "clearAllSelectedCircles s =
           Inr (s\<lparr>selectedCircles := committed, boardRefillHappening := True,
                   loopCreated := False, currentPointsToAdd := 0,
                   score := score s +
                     (if 10 \<le> int (length committed) then int (length committed) * 2
                      else int (length committed))\<rparr>,
                collectColumns (heap s) committed [])"
proof (cases "loopCreated s")
  case True
  with assms show ?thesis
    by (simp add: clearAllSelectedCircles_def resetPointsToBeAdded_def addPoints_def Let_def)
next
  case False
  with assms show ?thesis
    by (simp add: clearAllSelectedCircles_def resetPointsToBeAdded_def addPoints_def Let_def)
qed

lemma clearAllSelectedCircles_error:
  assumes "(if loopCreated s then allSimilarColorCircles s else selectedCircles s) = []"
  shows "clearAllSelectedCircles s = Inl TypeError"
  using assms
  by (cases "loopCreated s")
     (simp_all add: clearAllSelectedCircles_def resetPointsToBeAdded_def Let_def)

lemma pointerup_discard:
  assumes "gameIsRunning s" and "length (selectedCircles s) \<le> 1"
  shows "pointerup s = Inr (s\<lparr>pointerBodyEnabled := False, selectedCircles := []\<rparr>, None)"
proof (cases "selectedCircles s = []")
  case True
  then have "s\<lparr>pointerBodyEnabled := False, selectedCircles := []\<rparr> = s\<lparr>pointerBodyEnabled := False\<rparr>"
    by (cases s) simp
  with True assms show ?thesis
    by (simp add: pointerup_def Let_def)
next
  case False
  with assms have "length (selectedCircles s) = 1"
    by (cases "selectedCircles s") simp_all
  with assms show ?thesis
    by (simp add: pointerup_def Let_def)
qed

lemma pointerup_commit:
  assumes "gameIsRunning s" and "1 < length (selectedCircles s)"
    and "committed = (if loopCreated s then allSimilarColorCircles s else selectedCircles s)"
    and "committed \<noteq> []"
  shows "pointerup s =
           Inr (s\<lparr>pointerBodyEnabled := False, selectedCircles := committed,
                   boardRefillHappening := True, loopCreated := False,
                   currentPointsToAdd := 0,
                   score := score s +
                     (if 10 \<le> int (length committed) then int (length committed) * 2
                      else int (length committed))\<rparr>,
                Some (collectColumns (heap s) committed []))"
proof -
  let ?s1 = "s\<lparr>pointerBodyEnabled := False\<rparr>"
  have "committed = (if loopCreated ?s1 then allSimilarColorCircles ?s1 else selectedCircles ?s1)"
    using assms(3) by simp
  from clearAllSelectedCircles_commit [OF this assms(4)] assms(1,2) show ?thesis
    by (simp add: pointerup_def Let_def)
qed

lemma pointerup_idle:
  "\<not> gameIsRunning s \<Longrightarrow> pointerup s = Inr (s, None)"
  by (simp add: pointerup_def)

lemma fold_destroy_heap_fields:
  "gridX (heap (fold destroy cs s) c) = gridX (heap s c) \<and>
   gridY (heap (fold destroy cs s) c) = gridY (heap s c) \<and>
   color (heap (fold destroy cs s) c) = color (heap s c)"
  by (induction cs arbitrary: s) (auto simp: destroy_def)

lemma releaseGesture_commit:
  assumes "gameIsRunning s" and "1 < length (selectedCircles s)"
    and "committed = (if loopCreated s then allSimilarColorCircles s else selectedCircles s)"
    and "committed \<noteq> []"
    and "s1 = s\<lparr>pointerBodyEnabled := False, selectedCircles := committed,
                 boardRefillHappening := True, loopCreated := False,
                 currentPointsToAdd := 0,
                 score := score s +
                   (if 10 \<le> int (length committed) then int (length committed) * 2
                    else int (length committed))\<rparr>"
  shows "releaseGesture K s =
           (case updateBoard K (collectColumns (heap s) committed []) (fold destroy committed s1) of
              Inl e \<Rightarrow> Inl e
            | Inr s2 \<Rightarrow> Inr (s2\<lparr>selectedCircles := []\<rparr>))"
proof -
  have p: "pointerup s = Inr (s1, Some (collectColumns (heap s) committed []))"
    using pointerup_commit [OF assms(1-4)] assms(5) by simp
  have "selectedCircles s1 = [] @ committed"
    using assms(5) by simp
  from runShrinkTweens_latch [OF this assms(4), of 0 K "collectColumns (heap s) committed []"]
  show ?thesis
    using assms(5) by (simp add: releaseGesture_def p split: sum.splits)
qed

lemma fillRow_fields:
  "highScore (snd (fillRow y xs bs)) = highScore (snd bs) \<and>
   score (snd (fillRow y xs bs)) = score (snd bs) \<and>
   selectedCircles (snd (fillRow y xs bs)) = selectedCircles (snd bs) \<and>
   currentPointsToAdd (snd (fillRow y xs bs)) = currentPointsToAdd (snd bs) \<and>
   gameIsRunning (snd (fillRow y xs bs)) = gameIsRunning (snd bs) \<and>
   loopCreated (snd (fillRow y xs bs)) = loopCreated (snd bs)"
  by (induction xs arbitrary: bs) (simp_all add: createNewCircle_def Let_def split_beta)

lemma fillRows_fields:
  "highScore (snd (fillRows K ys bs)) = highScore (snd bs) \<and>
   score (snd (fillRows K ys bs)) = score (snd bs) \<and>
   selectedCircles (snd (fillRows K ys bs)) = selectedCircles (snd bs) \<and>
   currentPointsToAdd (snd (fillRows K ys bs)) = currentPointsToAdd (snd bs) \<and>
   gameIsRunning (snd (fillRows K ys bs)) = gameIsRunning (snd bs) \<and>
   loopCreated (snd (fillRows K ys bs)) = loopCreated (snd bs)"
  by (induction ys arbitrary: bs) (simp_all add: fillRow_fields)

lemma startGame_fields:
  "highScore (startGame K s) = highScore s \<and> score (startGame K s) = 0 \<and>
   selectedCircles (startGame K s) = [] \<and> currentPointsToAdd (startGame K s) = 0 \<and>
   gameIsRunning (startGame K s) \<and> \<not> loopCreated (startGame K s)"
  by (simp add: startGame_def createInitialBoard_def split_beta fillRows_fields
        startTimer_def initializeGameVariables_def)

lemma onOverlap_points:
  assumes "onOverlap K c s = Inr s'"
  shows "currentPointsToAdd s' = currentPointsToAdd s - 1 \<or>
         currentPointsToAdd s' = currentPointsToAdd s \<or>
         currentPointsToAdd s' = currentPointsToAdd s + 1"
  using assms by (cases K c s rule: onOverlap_cases) auto

lemma shrinkComplete_points:
  assumes "shrinkComplete K cols c (s, k) = Inr (s', k')"
  shows "currentPointsToAdd s' = currentPointsToAdd s"
proof (cases "Suc k = length (selectedCircles s)")
  case True
  with assms obtain s2 where u: "updateBoard K cols (destroy c s) = Inr s2"
    and e: "s' = s2\<lparr>selectedCircles := []\<rparr>"
    by (auto simp: shrinkComplete_def Let_def split: sum.splits)
  from updateBoard_fields [OF u] e show ?thesis
    by simp
next
  case False
  with assms show ?thesis
    by (auto simp: shrinkComplete_def Let_def)
qed

section \<open>A release and what may follow it\<close>

lemma chainExample_columns:
  "gridX (heap chainExample 0) = 0" "gridX (heap chainExample (Suc 0)) = Suc 0"
  "gridX (heap chainExample 3) = Suc 0"
  using chainExample_gridX by simp_all

lemma chainExample_release:
  "pointerup chainExample = Inr (committedExample, Some [0, 1])"
proof -
  have c: "[0, 1, 3] = (if loopCreated chainExample then allSimilarColorCircles chainExample
                         else selectedCircles chainExample)"
    by (simp add: chainExample_chain chainExample_unlooped)
  have "1 < length (selectedCircles chainExample)"
    by (simp add: chainExample_chain)
  from pointerup_commit [OF chainExample_running this c] show ?thesis
    by (simp add: committedExample_def chainExample_score chainExample_columns)
qed

lemma committedExample_release:
  "pointerup committedExample = Inr (committedExample\<lparr>score := 6\<rparr>, Some [0, 1])"
proof -
  have r: "gameIsRunning committedExample"
    using chainExample_running by (simp add: committedExample_def)
  have c: "[0, 1, 3] = (if loopCreated committedExample
                         then allSimilarColorCircles committedExample
                         else selectedCircles committedExample)"
    by (simp add: committedExample_def)
  have l: "1 < length (selectedCircles committedExample)"
    by (simp add: committedExample_def)
  have h: "heap committedExample = heap chainExample"
    by (simp add: committedExample_def)
  from pointerup_commit [OF r l c] show ?thesis
    by (simp add: h chainExample_columns) (simp add: committedExample_def)
qed

lemma committedExample_fields:
  "selectedCircles committedExample = [0, 1, 3]"
  "board committedExample = board chainExample"
  "score committedExample = 3"
  "gameIsRunning committedExample"
  using chainExample_running by (simp_all add: committedExample_def)

lemma runShrinkTweens_orphaned:
  "selectedCircles s = [] \<Longrightarrow>
     runShrinkTweens K cols cs (s, k) = Inr (fold destroy cs s, k + length cs)"
  by (induction cs arbitrary: s k) (simp_all add: shrinkComplete_def Let_def)

lemma onCountdownComplete_fields:
  "selectedCircles (onCountdownComplete s) = []"
  "board (onCountdownComplete s) = []"
  "nextId (onCountdownComplete s) = nextId s"
  "\<not> gameIsRunning (onCountdownComplete s)"
  by (simp_all add: onCountdownComplete_def clearPreviousGame_def clearBoard_def Let_def)

section \<open>The board invariant\<close>

lemma columnSlots_iff:
  "columnSlots h s x =
     (length (board s ! x) = h \<and>
      (\<forall>y<h. board s ! x ! y < nextId s \<and>
          gridX (heap s (board s ! x ! y)) = x \<and>
          gridY (heap s (board s ! x ! y)) = y))"
  by (auto simp: columnSlots_def list_all_iff)

lemma columnLive_iff: "columnLive s x = (\<forall>c\<in>set (board s ! x). active (heap s c))"
  by (simp add: columnLive_def list_all_iff)

lemma boardOk_iff:
  "boardOk K s = (\<forall>x<length (board s). columnSlots (GRID_HEIGHT K) s x \<and> columnLive s x)"
  by (auto simp: boardOk_def list_all_iff)

lemma columnSlots_member:
  assumes "columnSlots h s x" and "c \<in> set (board s ! x)"
  shows "c < nextId s \<and> gridX (heap s c) = x"
proof -
  from assms(2) obtain y where "y < length (board s ! x)" "board s ! x ! y = c"
    by (auto simp: in_set_conv_nth)
  with assms(1) show ?thesis
    by (auto simp: columnSlots_iff)
qed

lemma columnSlots_distinct:
  assumes "columnSlots h s x"
  shows "distinct (board s ! x)"
proof -
  have "board s ! x ! i \<noteq> board s ! x ! j"
    if "i < length (board s ! x)" "j < length (board s ! x)" "i \<noteq> j" for i j
  proof
    assume e: "board s ! x ! i = board s ! x ! j"
    have "gridY (heap s (board s ! x ! i)) = i" "gridY (heap s (board s ! x ! j)) = j"
      using assms that by (simp_all add: columnSlots_iff)
    with e that(3) show False by simp
  qed
  then show ?thesis
    by (simp add: distinct_conv_nth)
qed

lemma filter_nth_source:
  "m < length (filter P xs) \<Longrightarrow>
   \<exists>i<length xs. P (xs ! i) \<and> filter P xs ! m = xs ! i \<and> m = length (filter P (take i xs))"
proof (induction xs arbitrary: m)
  case Nil
  then show ?case by simp
next
  case (Cons a as)
  show ?case
  proof (cases "P a")
    case True
    show ?thesis
    proof (cases m)
      case 0
      with True show ?thesis
        by (intro exI [of _ 0]) simp
    next
      case (Suc m')
      with Cons.prems True have "m' < length (filter P as)"
        by simp
      from Cons.IH [OF this] obtain i where "i < length as" "P (as ! i)"
        "filter P as ! m' = as ! i" "m' = length (filter P (take i as))"
        by blast
      with True Suc show ?thesis
        by (intro exI [of _ "Suc i"]) simp
    qed
  next
    case False
    with Cons.prems have "m < length (filter P as)"
      by simp
    from Cons.IH [OF this] obtain i where "i < length as" "P (as ! i)"
      "filter P as ! m = as ! i" "m = length (filter P (take i as))"
      by blast
    with False show ?thesis
      by (intro exI [of _ "Suc i"]) simp
  qed
qed

lemma updateColumn_slots_self:
  assumes u: "updateColumn K x s = Inr s1" and sl: "columnSlots (GRID_HEIGHT K) s x"
  shows "columnSlots (GRID_HEIGHT K) s1 x \<and> columnLive s1 x"
proof -
  let ?col = "board s ! x"
  let ?alive = "\<lambda>c. active (heap s c)"
  let ?surv = "filter ?alive ?col"
  let ?k = "GRID_HEIGHT K - length ?surv"
  let ?dead = "length (filter (\<lambda>c. \<not> ?alive c) ?col)"
  have c: "x < length (board s)"
    using updateColumn_unfold(1) [OF u] .
  have len: "length ?col = GRID_HEIGHT K"
    using sl by (simp add: columnSlots_iff)
  have ids: "\<forall>i\<in>set ?col. i < nextId s"
    using columnSlots_member [OF sl] by blast
  have d: "distinct ?col"
    using columnSlots_distinct [OF sl] .
  have kd: "?k = ?dead"
    using sum_length_filter_compl [of ?alive ?col] len by simp
  have b: "board s1 ! x = [nextId s ..< nextId s + ?k] @ ?surv"
    using updateColumn_board [OF u] c by simp
  have n: "nextId s1 = nextId s + ?k"
    using updateColumn_nextId [OF u] .
  have l1: "length (board s1 ! x) = GRID_HEIGHT K"
    and live: "\<forall>i\<in>set (board s1 ! x). active (heap s1 i) \<and> i < nextId s1"
    using updateColumn_column [OF u len ids] by simp_all
  have row: "board s1 ! x ! y < nextId s1 \<and> gridX (heap s1 (board s1 ! x ! y)) = x \<and>
             gridY (heap s1 (board s1 ! x ! y)) = y" if y: "y < GRID_HEIGHT K" for y
  proof (cases "y < ?k")
    case True
    have "heap s1 (nextId s + y) =
            \<lparr>color = rnd s (nextId s + y), gridX = x, gridY = nextId s + y - nextId s,
             active = True\<rparr>"
      using True n by (intro updateColumn_heap_new [OF u]) simp_all
    with True n show ?thesis
      by (simp add: b nth_append)
  next
    case False
    let ?m = "y - ?k"
    have m: "?m < length ?surv"
      using False y length_filter_le [of ?alive ?col] len by simp
    from filter_nth_source [OF m] obtain i where i: "i < length ?col" "?alive (?col ! i)"
      "?surv ! ?m = ?col ! i" "?m = length (filter ?alive (take i ?col))"
      by blast
    have pos: "i + length (filter (\<lambda>c. \<not> ?alive c) (drop (Suc i) ?col)) = y"
      using survivor_position [of i ?col ?alive] i False kd by simp
    have e: "board s1 ! x ! y = ?col ! i"
      using False i(3) by (simp add: b nth_append)
    have old: "?col ! i < nextId s"
      using ids i(1) by simp
    then have h: "heap s1 (?col ! i) = fst (scanColumn (rev ?col) (heap s) 0 []) (?col ! i)"
      by (rule updateColumn_heap_old [OF u])
    have "gridY (heap s (?col ! i)) = i" "gridX (heap s (?col ! i)) = x"
      using sl i(1) len by (simp_all add: columnSlots_iff)
    then have "gridY (heap s1 (?col ! i)) = y" "gridX (heap s1 (?col ! i)) = x"
      using scanColumn_column_gridY [where h = "heap s" and col = ?col and i = i, OF d i(1,2)]
        pos h
      by (simp_all add: scanColumn_fields)
    with e old n show ?thesis
      by simp
  qed
  show ?thesis
    using l1 row live by (simp add: columnSlots_iff columnLive_iff)
qed

lemma updateColumn_slots_other:
  assumes u: "updateColumn K x s = Inr s1" and sl: "columnSlots (GRID_HEIGHT K) s x"
    and o: "columnSlots (GRID_HEIGHT K) s x'" and ne: "x' \<noteq> x"
  shows "columnSlots (GRID_HEIGHT K) s1 x' \<and> (columnLive s x' \<longrightarrow> columnLive s1 x')"
proof -
  have b: "board s1 ! x' = board s ! x'"
    using updateColumn_other [OF u ne] .
  have h: "heap s1 c = heap s c" if "c \<in> set (board s ! x')" for c
  proof -
    have c: "c < nextId s" "gridX (heap s c) = x'"
      using columnSlots_member [OF o that] by simp_all
    have "c \<notin> set (board s ! x)"
      using columnSlots_member [OF sl, of c] c(2) ne by auto
    then have "fst (scanColumn (rev (board s ! x)) (heap s) 0 []) c = heap s c"
      by (intro scanColumn_frame) simp
    with updateColumn_heap_old [OF u c(1)] show ?thesis
      by simp
  qed
  have "columnSlots (GRID_HEIGHT K) s1 x'"
    using o updateColumn_nextId_le [OF u] h
    by (fastforce simp: columnSlots_iff b)
  moreover have "columnLive s1 x'" if "columnLive s x'"
    using that h by (simp add: columnLive_iff b)
  ultimately show ?thesis
    by simp
qed

lemma updateBoard_boardOk:
  assumes "\<forall>x<length (board s). columnSlots (GRID_HEIGHT K) s x"
    and "\<forall>x\<in>set cols. x < length (board s)"
    and "\<forall>x<length (board s). x \<notin> set cols \<longrightarrow> columnLive s x"
  shows "\<exists>s'. updateBoard K cols s = Inr s' \<and> length (board s') = length (board s) \<and>
           boardOk K s'"
  using assms
proof (induction cols arbitrary: s)
  case Nil
  then show ?case by (simp add: boardOk_iff)
next
  case (Cons x cols)
  have c: "x < length (board s)"
    using Cons.prems(2) by simp
  then obtain s1 where u: "updateColumn K x s = Inr s1"
    using updateColumn_Inr by blast
  have l: "length (board s1) = length (board s)"
    using updateColumn_length [OF u] .
  have sx: "columnSlots (GRID_HEIGHT K) s x"
    using Cons.prems(1) c by simp
  note self = updateColumn_slots_self [OF u sx]
  have 1: "\<forall>x'<length (board s1). columnSlots (GRID_HEIGHT K) s1 x'"
  proof (intro allI impI)
    fix x'
    assume "x' < length (board s1)"
    then have "columnSlots (GRID_HEIGHT K) s x'"
      using Cons.prems(1) l by simp
    then show "columnSlots (GRID_HEIGHT K) s1 x'"
      using self updateColumn_slots_other [OF u sx] by (cases "x' = x") simp_all
  qed
  have 2: "\<forall>x'\<in>set cols. x' < length (board s1)"
    using Cons.prems(2) l by simp
  have 3: "\<forall>x'<length (board s1). x' \<notin> set cols \<longrightarrow> columnLive s1 x'"
  proof (intro allI impI)
    fix x'
    assume x': "x' < length (board s1)" "x' \<notin> set cols"
    show "columnLive s1 x'"
    proof (cases "x' = x")
      case True
      with self show ?thesis by simp
    next
      case False
      then have "columnLive s x'" "columnSlots (GRID_HEIGHT K) s x'"
        using Cons.prems(1,3) x' l by simp_all
      then show ?thesis
        using updateColumn_slots_other [OF u sx _ False] by simp
    qed
  qed
  from Cons.IH [OF 1 2 3] u l show ?case
    by simp
qed

lemma fillRow_frame:
  "\<exists>h. snd (fillRow y xs bs) = (snd bs)\<lparr>heap := h, nextId := nextId (snd bs) + length xs\<rparr>"
proof (induction xs arbitrary: bs)
  case Nil
  have "snd bs = (snd bs)\<lparr>heap := heap (snd bs), nextId := nextId (snd bs)\<rparr>"
    by simp
  then show ?case
    by (auto intro: exI [where x = "heap (snd bs)"])
next
  case (Cons x xs)
  let ?bs1 = "((fst bs)[x := fst bs ! x @ [nextId (snd bs)]],
               snd (createNewCircle x (int y) y (snd bs)))"
  from Cons.IH [of ?bs1] obtain h where
    "snd (fillRow y xs ?bs1) = (snd ?bs1)\<lparr>heap := h, nextId := nextId (snd ?bs1) + length xs\<rparr>"
    by blast
  then have "snd (fillRow y (x # xs) bs) =
      (snd bs)\<lparr>heap := h, nextId := nextId (snd bs) + length (x # xs)\<rparr>"
    by (simp add: createNewCircle_def Let_def split_beta)
  then show ?case
    by (rule exI [where x = h])
qed

lemma fillRow_nextId:
  "nextId (snd (fillRow y xs bs)) = nextId (snd bs) + length xs"
  using fillRow_frame [of y xs bs] by auto

lemma fillRow_length:
  "length (fst (fillRow y xs bs)) = length (fst bs)"
  by (induction xs arbitrary: bs) (simp_all add: split_beta)

lemma fillRow_heap_old:
  "i < nextId (snd bs) \<Longrightarrow> heap (snd (fillRow y xs bs)) i = heap (snd bs) i"
  by (induction xs arbitrary: bs) (simp_all add: createNewCircle_def Let_def split_beta)

lemma fillRow_column_other:
  "x \<notin> set xs \<Longrightarrow> fst (fillRow y xs bs) ! x = fst bs ! x"
  by (induction xs arbitrary: bs) (auto simp: split_beta)

lemma fillRow_column:
  assumes "distinct xs" and "\<forall>x\<in>set xs. x < length (fst bs)" and "j < length xs"
  shows "fst (fillRow y xs bs) ! (xs ! j) = fst bs ! (xs ! j) @ [nextId (snd bs) + j] \<and>
         heap (snd (fillRow y xs bs)) (nextId (snd bs) + j) =
           \<lparr>color = rnd (snd bs) (nextId (snd bs) + j), gridX = xs ! j, gridY = y,
            active = True\<rparr>"
  using assms
proof (induction xs arbitrary: bs j)
  case Nil
  then show ?case by simp
next
  case (Cons x xs)
  let ?s1 = "snd (createNewCircle x (int y) y (snd bs))"
  let ?bs1 = "((fst bs)[x := fst bs ! x @ [nextId (snd bs)]], ?s1)"
  have step: "fillRow y (x # xs) bs = fillRow y xs ?bs1"
    by (simp add: createNewCircle_def Let_def split_beta)
  have n1: "nextId ?s1 = Suc (nextId (snd bs))" and r1: "rnd ?s1 = rnd (snd bs)"
    by (simp_all add: createNewCircle_def Let_def)
  show ?case
  proof (cases j)
    case 0
    have "fst (fillRow y xs ?bs1) ! x = fst ?bs1 ! x"
      using Cons.prems(1) by (intro fillRow_column_other) simp
    moreover have "heap (snd (fillRow y xs ?bs1)) (nextId (snd bs)) = heap ?s1 (nextId (snd bs))"
      using fillRow_heap_old [of "nextId (snd bs)" ?bs1 y xs] by (simp add: n1)
    ultimately show ?thesis
      using 0 Cons.prems(2) unfolding step
      by (simp add: createNewCircle_def Let_def)
  next
    case (Suc j')
    have d: "distinct xs" and b: "\<forall>x'\<in>set xs. x' < length (fst ?bs1)"
      and j': "j' < length xs"
      using Cons.prems Suc by simp_all
    have ne: "xs ! j' \<noteq> x"
      using Cons.prems(1) j' by auto
    from Cons.IH [OF d b j'] ne Suc show ?thesis
      unfolding step by (simp add: n1 r1)
  qed
qed

lemma fillRow_slots:
  assumes "length (fst bs) = w"
    and "\<forall>x<w. columnSlots y ((snd bs)\<lparr>board := fst bs\<rparr>) x \<and>
                columnLive ((snd bs)\<lparr>board := fst bs\<rparr>) x"
  shows "length (fst (fillRow y [0 ..< w] bs)) = w \<and>
         (\<forall>x<w. columnSlots (Suc y)
                   ((snd (fillRow y [0 ..< w] bs))\<lparr>board := fst (fillRow y [0 ..< w] bs)\<rparr>) x \<and>
                 columnLive
                   ((snd (fillRow y [0 ..< w] bs))\<lparr>board := fst (fillRow y [0 ..< w] bs)\<rparr>) x)"
proof (intro conjI allI impI)
  let ?r = "fillRow y [0 ..< w] bs"
  let ?n = "nextId (snd bs)"
  show "length (fst ?r) = w"
    using assms(1) by (simp add: fillRow_length)
  fix x
  assume x: "x < w"
  have col: "fst ?r ! x = fst bs ! x @ [?n + x]"
    and new: "heap (snd ?r) (?n + x) =
                \<lparr>color = rnd (snd bs) (?n + x), gridX = x, gridY = y, active = True\<rparr>"
    using fillRow_column [of "[0 ..< w]" bs x y] x assms(1) by simp_all
  have n: "nextId (snd ?r) = ?n + w"
    by (simp add: fillRow_nextId)
  have sl: "columnSlots y ((snd bs)\<lparr>board := fst bs\<rparr>) x"
    and lv: "columnLive ((snd bs)\<lparr>board := fst bs\<rparr>) x"
    using assms(2) x by simp_all
  have len: "length (fst bs ! x) = y"
    using sl by (simp add: columnSlots_iff)
  have old: "fst bs ! x ! r < ?n \<and> gridX (heap (snd bs) (fst bs ! x ! r)) = x \<and>
             gridY (heap (snd bs) (fst bs ! x ! r)) = r \<and>
             active (heap (snd bs) (fst bs ! x ! r))" if "r < y" for r
    using sl lv that len by (simp add: columnSlots_iff columnLive_iff)
  have keep: "heap (snd ?r) (fst bs ! x ! r) = heap (snd bs) (fst bs ! x ! r)" if "r < y" for r
    using old [OF that] by (intro fillRow_heap_old) simp
  have below: "fst bs ! x ! r < ?n + w" if "r < y" for r
    using old [OF that] by simp
  show "columnSlots (Suc y) ((snd ?r)\<lparr>board := fst ?r\<rparr>) x"
    unfolding columnSlots_iff
  proof (intro conjI allI impI)
    show "length (board ((snd ?r)\<lparr>board := fst ?r\<rparr>) ! x) = Suc y"
      by (simp add: col len)
    fix r
    assume r: "r < Suc y"
    show "board ((snd ?r)\<lparr>board := fst ?r\<rparr>) ! x ! r < nextId ((snd ?r)\<lparr>board := fst ?r\<rparr>)"
      using r below x by (cases "r < y") (auto simp: col len n nth_append less_Suc_eq)
    show "gridX (heap ((snd ?r)\<lparr>board := fst ?r\<rparr>)
            (board ((snd ?r)\<lparr>board := fst ?r\<rparr>) ! x ! r)) = x"
      using r old keep new by (cases "r < y") (auto simp: col len nth_append less_Suc_eq)
    show "gridY (heap ((snd ?r)\<lparr>board := fst ?r\<rparr>)
            (board ((snd ?r)\<lparr>board := fst ?r\<rparr>) ! x ! r)) = r"
      using r old keep new by (cases "r < y") (auto simp: col len nth_append less_Suc_eq)
  qed
  show "columnLive ((snd ?r)\<lparr>board := fst ?r\<rparr>) x"
    unfolding columnLive_iff
  proof
    fix c
    assume "c \<in> set (board ((snd ?r)\<lparr>board := fst ?r\<rparr>) ! x)"
    then consider "c = ?n + x" | r where "r < y" "c = fst bs ! x ! r"
      using len by (auto simp: col in_set_conv_nth)
    then show "active (heap ((snd ?r)\<lparr>board := fst ?r\<rparr>) c)"
    proof cases
      case 1
      with new show ?thesis by simp
    next
      case 2
      with old keep show ?thesis by simp
    qed
  qed
qed

lemma fillRows_slots:
  assumes "length (fst bs) = GRID_WIDTH K"
    and "\<forall>x<GRID_WIDTH K. columnSlots y ((snd bs)\<lparr>board := fst bs\<rparr>) x \<and>
                columnLive ((snd bs)\<lparr>board := fst bs\<rparr>) x"
  shows "length (fst (fillRows K [y ..< y + n] bs)) = GRID_WIDTH K \<and>
         (\<forall>x<GRID_WIDTH K.
            columnSlots (y + n)
              ((snd (fillRows K [y ..< y + n] bs))\<lparr>board := fst (fillRows K [y ..< y + n] bs)\<rparr>) x \<and>
            columnLive
              ((snd (fillRows K [y ..< y + n] bs))\<lparr>board := fst (fillRows K [y ..< y + n] bs)\<rparr>) x)"
  using assms
proof (induction n arbitrary: y bs)
  case 0
  then show ?case by simp
next
  case (Suc n)
  let ?bs1 = "fillRow y [0 ..< GRID_WIDTH K] bs"
  have e: "[y ..< y + Suc n] = y # [Suc y ..< Suc y + n]"
    by (simp add: upt_from_Cons del: upt_Suc)
  note f = fillRow_slots [OF Suc.prems]
  from Suc.IH [of ?bs1 "Suc y"] f show ?case
    unfolding e by simp
qed

lemma createInitialBoard_boardOk:
  "boardOk K (createInitialBoard K s) \<and>
   length (board (createInitialBoard K s)) = GRID_WIDTH K"
proof -
  let ?bs = "(replicate (GRID_WIDTH K) ([] :: nat list), s)"
  have 1: "length (fst ?bs) = GRID_WIDTH K"
    by simp
  have 2: "\<forall>x<GRID_WIDTH K. columnSlots 0 ((snd ?bs)\<lparr>board := fst ?bs\<rparr>) x \<and>
             columnLive ((snd ?bs)\<lparr>board := fst ?bs\<rparr>) x"
    by (simp add: columnSlots_iff columnLive_iff)
  from fillRows_slots [OF 1 2, of "GRID_HEIGHT K"] show ?thesis
    by (simp add: createInitialBoard_def split_beta boardOk_iff)
qed

section \<open>The claims\<close>

text \<open>
  Claim C1. On a board whose columns all have \<open>GRID_HEIGHT\<close> slots, compacting the
  columns that hold the destroyed circles leaves every column with exactly
  \<open>GRID_HEIGHT\<close> circles, all of them live, so no destroyed circle is referenced by
  the board any more; compacting any one column spawns as many circles (the growth of
  \<open>nextId\<close>) as, together with the survivors, make \<open>GRID_HEIGHT\<close>.
\<close>

theorem compaction_restores_height:
  assumes "\<forall>c<length (board s). length (board s ! c) = GRID_HEIGHT K \<and>
             (\<forall>i\<in>set (board s ! c). i < nextId s)"
    and "\<forall>c\<in>set cols. c < length (board s)"
    and "\<forall>c<length (board s). c \<notin> set cols \<longrightarrow> (\<forall>i\<in>set (board s ! c). active (heap s i))"
  shows "(\<exists>s'. updateBoard K cols s = Inr s' \<and> length (board s') = length (board s) \<and>
            (\<forall>c<length (board s'). length (board s' ! c) = GRID_HEIGHT K \<and>
               (\<forall>i\<in>set (board s' ! c). active (heap s' i)))) \<and>
         (\<forall>c<length (board s). \<exists>s1. updateColumn K c s = Inr s1 \<and>
            length (filter (\<lambda>i. active (heap s i)) (board s ! c)) + (nextId s1 - nextId s)
              = GRID_HEIGHT K \<and>
            board s1 ! c =
              [nextId s ..< nextId s1] @ filter (\<lambda>i. active (heap s i)) (board s ! c) \<and>
            length (board s1 ! c) = GRID_HEIGHT K \<and>
            (\<forall>i\<in>set (board s1 ! c). active (heap s1 i)))"
proof (intro conjI)
  show "\<exists>s'. updateBoard K cols s = Inr s' \<and> length (board s') = length (board s) \<and>
            (\<forall>c<length (board s'). length (board s' ! c) = GRID_HEIGHT K \<and>
               (\<forall>i\<in>set (board s' ! c). active (heap s' i)))"
    using updateBoard_restores [OF assms] by blast
  show "\<forall>c<length (board s). \<exists>s1. updateColumn K c s = Inr s1 \<and>
            length (filter (\<lambda>i. active (heap s i)) (board s ! c)) + (nextId s1 - nextId s)
              = GRID_HEIGHT K \<and>
            board s1 ! c =
              [nextId s ..< nextId s1] @ filter (\<lambda>i. active (heap s i)) (board s ! c) \<and>
            length (board s1 ! c) = GRID_HEIGHT K \<and>
            (\<forall>i\<in>set (board s1 ! c). active (heap s1 i))"
  proof (intro allI impI)
    fix c
    assume c: "c < length (board s)"
    then obtain s1 where u: "updateColumn K c s = Inr s1"
      using updateColumn_Inr by blast
    let ?surv = "filter (\<lambda>i. active (heap s i)) (board s ! c)"
    have len: "length (board s ! c) = GRID_HEIGHT K"
      and ids: "\<forall>i\<in>set (board s ! c). i < nextId s"
      using assms(1) c by simp_all
    have "length ?surv \<le> GRID_HEIGHT K"
      using length_filter_le [of "\<lambda>i. active (heap s i)" "board s ! c"] len by simp
    then have "length ?surv + (nextId s1 - nextId s) = GRID_HEIGHT K"
      using updateColumn_nextId [OF u] by simp
    moreover have "board s1 ! c = [nextId s ..< nextId s1] @ ?surv"
      using updateColumn_board [OF u] updateColumn_nextId [OF u] c by simp
    moreover have "length (board s1 ! c) = GRID_HEIGHT K"
      and "\<forall>i\<in>set (board s1 ! c). active (heap s1 i)"
      using updateColumn_column [OF u len ids] by simp_all
    ultimately show "\<exists>s1. updateColumn K c s = Inr s1 \<and>
            length ?surv + (nextId s1 - nextId s) = GRID_HEIGHT K \<and>
            board s1 ! c = [nextId s ..< nextId s1] @ ?surv \<and>
            length (board s1 ! c) = GRID_HEIGHT K \<and>
            (\<forall>i\<in>set (board s1 ! c). active (heap s1 i))"
      using u by blast
  qed
qed

text \<open>
  Two columns of height 3; the two upper circles of column 0 are destroyed and column 0
  is compacted.
\<close>

theorem compaction_restores_height_witness:
  "list_all (\<lambda>c. length c = GRID_HEIGHT (hexConstants 2 3) \<and>
                  list_all (\<lambda>i. i < nextId refillExample) c) (board refillExample) \<and>
   list_all (\<lambda>c. c < length (board refillExample)) [0] \<and>
   list_all (\<lambda>i. active (heap refillExample i)) (board refillExample ! 1) \<and>
   (\<exists>s'. updateBoard (hexConstants 2 3) [0] refillExample = Inr s' \<and>
      length (board s') = 2 \<and>
      list_all (\<lambda>c. length c = 3 \<and> list_all (\<lambda>i. active (heap s' i)) c) (board s')) \<and>
   (\<exists>s1. updateColumn (hexConstants 2 3) 0 refillExample = Inr s1 \<and>
      1 + (nextId s1 - 6) = (3::nat) \<and> board s1 ! 0 = [6 ..< nextId s1] @ [4])"
proof -
  have a: "\<not> active (heap refillExample 0)" "active (heap refillExample (Suc 0))"
    "\<not> active (heap refillExample 2)" "active (heap refillExample 3)"
    "active (heap refillExample 4)" "active (heap refillExample 5)"
    using refillExample_active by simp_all
  have h1: "\<forall>c<length (board refillExample).
              length (board refillExample ! c) = GRID_HEIGHT (hexConstants 2 3) \<and>
              (\<forall>i\<in>set (board refillExample ! c). i < nextId refillExample)"
    by (simp add: refillExample_board refillExample_nextId hexConstants_def All_less_Suc
          numeral_2_eq_2)
  have h2: "\<forall>c\<in>set [0]. c < length (board refillExample)"
    by (simp add: refillExample_board)
  have h3: "\<forall>c<length (board refillExample). c \<notin> set [0] \<longrightarrow>
              (\<forall>i\<in>set (board refillExample ! c). active (heap refillExample i))"
    by (simp add: refillExample_board a All_less_Suc numeral_2_eq_2)
  note t = compaction_restores_height [OF h1 h2 h3]
  from t obtain s' where
    s': "updateBoard (hexConstants 2 3) [0] refillExample = Inr s'"
      "length (board s') = length (board refillExample)"
      "\<forall>c<length (board s'). length (board s' ! c) = GRID_HEIGHT (hexConstants 2 3) \<and>
         (\<forall>i\<in>set (board s' ! c). active (heap s' i))"
    by blast
  have r1: "\<exists>s'. updateBoard (hexConstants 2 3) [0] refillExample = Inr s' \<and>
      length (board s') = 2 \<and>
      list_all (\<lambda>c. length c = 3 \<and> list_all (\<lambda>i. active (heap s' i)) c) (board s')"
    using s' by (auto simp: list_all_length refillExample_board hexConstants_def)
  have "0 < length (board refillExample)"
    by (simp add: refillExample_board)
  from t [THEN conjunct2, rule_format, OF this]
  have r2: "\<exists>s1. updateColumn (hexConstants 2 3) 0 refillExample = Inr s1 \<and>
      1 + (nextId s1 - 6) = (3::nat) \<and> board s1 ! 0 = [6 ..< nextId s1] @ [4]"
    by (auto simp: refillExample_board refillExample_nextId hexConstants_def a)
  show ?thesis
    using r1 r2
    by (simp add: refillExample_board refillExample_nextId hexConstants_def a)
qed

text \<open>
  Claim C2. Compacting a full column whose circles are distinct objects puts the
  surviving circles, in their original top-to-bottom order, below the newly spawned
  ones: the survivor of row \<open>i\<close> lands \<open>d\<close> slots lower and its \<open>gridY\<close> grows by \<open>d\<close>,
  where \<open>d\<close> is the number of destroyed circles below row \<open>i\<close>; the top slots, as many
  as there were destroyed circles, hold fresh live circles with \<open>gridY\<close> equal to
  their slot.
\<close>

theorem compaction_keeps_order:
  assumes "x < length (board s)"
    and "length (board s ! x) = GRID_HEIGHT K"
    and "distinct (board s ! x)"
    and "\<forall>c\<in>set (board s ! x). c < nextId s"
  shows "\<exists>s'. updateColumn K x s = Inr s' \<and>
           board s' ! x =
             [nextId s ..< nextId s + length (filter (\<lambda>c. \<not> active (heap s c)) (board s ! x))]
               @ filter (\<lambda>c. active (heap s c)) (board s ! x) \<and>
           (\<forall>i<GRID_HEIGHT K. active (heap s (board s ! x ! i)) \<longrightarrow>
              board s' ! x !
                (i + length (filter (\<lambda>c. \<not> active (heap s c)) (drop (Suc i) (board s ! x))))
                = board s ! x ! i \<and>
              gridY (heap s' (board s ! x ! i)) =
                gridY (heap s (board s ! x ! i))
                  + length (filter (\<lambda>c. \<not> active (heap s c)) (drop (Suc i) (board s ! x)))) \<and>
           (\<forall>j<length (filter (\<lambda>c. \<not> active (heap s c)) (board s ! x)).
              board s' ! x ! j = nextId s + j \<and>
              active (heap s' (nextId s + j)) \<and>
              gridX (heap s' (nextId s + j)) = x \<and>
              gridY (heap s' (nextId s + j)) = j)"
proof -
  let ?col = "board s ! x"
  let ?alive = "\<lambda>c. active (heap s c)"
  let ?dead = "length (filter (\<lambda>c. \<not> ?alive c) ?col)"
  let ?surv = "filter ?alive ?col"
  obtain s' where s': "updateColumn K x s = Inr s'"
    using updateColumn_Inr [OF assms(1)] by blast
  have k: "GRID_HEIGHT K - length ?surv = ?dead"
    using sum_length_filter_compl [of ?alive ?col] assms(2) by simp
  have b: "board s' ! x = [nextId s ..< nextId s + ?dead] @ ?surv"
    using updateColumn_board [OF s'] assms(1) k by simp
  have n: "nextId s' = nextId s + ?dead"
    using updateColumn_nextId [OF s'] k by simp
  have surv: "board s' ! x ! (i + length (filter (\<lambda>c. \<not> ?alive c) (drop (Suc i) ?col))) = ?col ! i
      \<and> gridY (heap s' (?col ! i)) =
          gridY (heap s (?col ! i)) + length (filter (\<lambda>c. \<not> ?alive c) (drop (Suc i) ?col))"
    if i: "i < GRID_HEIGHT K" and a: "?alive (?col ! i)" for i
  proof
    have il: "i < length ?col"
      using i assms(2) by simp
    have "i + length (filter (\<lambda>c. \<not> ?alive c) (drop (Suc i) ?col)) =
            ?dead + length (filter ?alive (take i ?col))"
      using il a by (rule survivor_position)
    then show "board s' ! x ! (i + length (filter (\<lambda>c. \<not> ?alive c) (drop (Suc i) ?col))) = ?col ! i"
      using filter_nth_position [of i ?col ?alive] il a
      by (simp add: b nth_append)
    have "?col ! i < nextId s"
      using assms(4) il by simp
    then have "heap s' (?col ! i) = fst (scanColumn (rev ?col) (heap s) 0 []) (?col ! i)"
      by (rule updateColumn_heap_old [OF s'])
    then show "gridY (heap s' (?col ! i)) =
          gridY (heap s (?col ! i)) + length (filter (\<lambda>c. \<not> ?alive c) (drop (Suc i) ?col))"
      using scanColumn_column_gridY [where h = "heap s" and col = ?col and i = i, OF assms(3) il a]
      by simp
  qed
  have new: "board s' ! x ! j = nextId s + j \<and> active (heap s' (nextId s + j)) \<and>
             gridX (heap s' (nextId s + j)) = x \<and> gridY (heap s' (nextId s + j)) = j"
    if j: "j < ?dead" for j
  proof -
    have "heap s' (nextId s + j) =
            \<lparr>color = rnd s (nextId s + j), gridX = x, gridY = nextId s + j - nextId s,
             active = True\<rparr>"
      using j n by (intro updateColumn_heap_new [OF s']) simp_all
    then show ?thesis
      using j by (simp add: b nth_append)
  qed
  from s' b surv new show ?thesis
    by blast
qed

text \<open>
  The height-5 column with rows 1 and 3 destroyed: the survivors of rows 0, 2, 4 fill
  the bottom three slots and two new circles are on top.
\<close>

theorem compaction_keeps_order_witness:
  "0 < length (board columnExample) \<and>
   length (board columnExample ! 0) = GRID_HEIGHT (hexConstants 1 5) \<and>
   distinct (board columnExample ! 0) \<and>
   list_all (\<lambda>c. c < nextId columnExample) (board columnExample ! 0) \<and>
   (\<exists>s'. updateColumn (hexConstants 1 5) 0 columnExample = Inr s' \<and>
      board s' ! 0 = [5, 6, 0, 2, 4] \<and>
      gridY (heap s' 0) = 2 \<and> gridY (heap s' 2) = 3 \<and> gridY (heap s' 4) = 4 \<and>
      active (heap s' 5) \<and> active (heap s' 6) \<and>
      gridY (heap s' 5) = 0 \<and> gridY (heap s' 6) = 1)"
proof -
  have h: "0 < length (board columnExample)"
    "length (board columnExample ! 0) = GRID_HEIGHT (hexConstants 1 5)"
    "distinct (board columnExample ! 0)"
    "\<forall>c\<in>set (board columnExample ! 0). c < nextId columnExample"
    by (simp_all add: columnExample_board columnExample_nextId hexConstants_def)
  from compaction_keeps_order [OF h]
  obtain s' where s': "updateColumn (hexConstants 1 5) 0 columnExample = Inr s'"
    and b: "board s' ! 0 =
             [nextId columnExample ..< nextId columnExample +
                length (filter (\<lambda>c. \<not> active (heap columnExample c)) (board columnExample ! 0))]
               @ filter (\<lambda>c. active (heap columnExample c)) (board columnExample ! 0)"
    and sv: "\<forall>i<GRID_HEIGHT (hexConstants 1 5). active (heap columnExample (board columnExample ! 0 ! i)) \<longrightarrow>
              board s' ! 0 !
                (i + length (filter (\<lambda>c. \<not> active (heap columnExample c)) (drop (Suc i) (board columnExample ! 0))))
                = board columnExample ! 0 ! i \<and>
              gridY (heap s' (board columnExample ! 0 ! i)) =
                gridY (heap columnExample (board columnExample ! 0 ! i))
                  + length (filter (\<lambda>c. \<not> active (heap columnExample c)) (drop (Suc i) (board columnExample ! 0)))"
    and nw: "\<forall>j<length (filter (\<lambda>c. \<not> active (heap columnExample c)) (board columnExample ! 0)).
              board s' ! 0 ! j = nextId columnExample + j \<and>
              active (heap s' (nextId columnExample + j)) \<and>
              gridX (heap s' (nextId columnExample + j)) = 0 \<and>
              gridY (heap s' (nextId columnExample + j)) = j"
    by blast
  have a: "active (heap columnExample 0)" "\<not> active (heap columnExample (Suc 0))"
    "active (heap columnExample 2)" "\<not> active (heap columnExample 3)"
    "active (heap columnExample 4)"
    using columnExample_active by simp_all
  have g: "gridY (heap columnExample 0) = 0" "gridY (heap columnExample 2) = 2"
    "gridY (heap columnExample 4) = 4"
    using columnExample_gridY by simp_all
  have "board s' ! 0 = [5, 6, 0, 2, 4]"
    using b by (simp add: columnExample_board columnExample_nextId a upt_rec)
  moreover have "gridY (heap s' 0) = 2"
    using sv [rule_format, of 0] by (simp add: columnExample_board hexConstants_def a g)
  moreover have "gridY (heap s' 2) = 3"
    using sv [rule_format, of 2] by (simp add: columnExample_board hexConstants_def a g)
  moreover have "gridY (heap s' 4) = 4"
    using sv [rule_format, of 4] by (simp add: columnExample_board hexConstants_def a g)
  moreover have "active (heap s' 5) \<and> gridY (heap s' 5) = 0"
    using nw [rule_format, of 0] by (simp add: columnExample_board columnExample_nextId a)
  moreover have "active (heap s' 6) \<and> gridY (heap s' 6) = 1"
    using nw [rule_format, of 1] by (simp add: columnExample_board columnExample_nextId a)
  ultimately show ?thesis
    using h s' by (simp add: list_all_iff)
qed

text \<open>
  Claim C3. Starting from an empty chain, any sequence of overlap events leaves a chain
  in which every two consecutive circles are adjacent under the offset table chosen by
  the earlier circle's row parity and have the same colour, and no event raises. With
  an empty chain \<^verbatim>\<open>isValidNextCircle\<close> accepts every circle without looking at it, and
  (the selector not being looped) the circle becomes the chain.
\<close>

theorem chain_links_consecutive_circles:
  assumes "selectedCircles s = []"
  shows "isValidNextCircle K s c \<and>
         (\<not> loopCreated s \<longrightarrow>
            onOverlap K c s =
              Inr (s\<lparr>selectedCircles := [c], currentPointsToAdd := currentPointsToAdd s + 1\<rparr>)) \<and>
         (\<exists>s'. onOverlaps K cs s = Inr s' \<and>
            chainLinked K (heap s') (selectedCircles s') \<and>
            (\<forall>i. Suc i < length (selectedCircles s') \<longrightarrow>
               (int (gridX (heap s' (selectedCircles s' ! Suc i)))
                  - int (gridX (heap s' (selectedCircles s' ! i))),
                int (gridY (heap s' (selectedCircles s' ! Suc i)))
                  - int (gridY (heap s' (selectedCircles s' ! i))))
                 \<in> set (if gridY (heap s' (selectedCircles s' ! i)) mod 2 = 0
                        then ADJACENT_CIRCLE_OFFSETS_RIGHT_LEANING K
                        else ADJACENT_CIRCLE_OFFSETS_LEFT_LEANING K) \<and>
               color (heap s' (selectedCircles s' ! i))
                 = color (heap s' (selectedCircles s' ! Suc i))))"
proof (intro conjI impI)
  show v: "isValidNextCircle K s c"
    using assms by (rule isValidNextCircle_empty)
  show "onOverlap K c s =
          Inr (s\<lparr>selectedCircles := [c], currentPointsToAdd := currentPointsToAdd s + 1\<rparr>)"
    if "\<not> loopCreated s"
    using onOverlap_append [of K s c] v that assms by (simp add: isBackTracking_iff)
  have "chainLinked K (heap s) (selectedCircles s)"
    using assms by simp
  then obtain s' where s': "onOverlaps K cs s = Inr s'"
    "chainLinked K (heap s') (selectedCircles s')"
    using onOverlaps_chainLinked by blast
  from s'(2) have "\<forall>i. Suc i < length (selectedCircles s') \<longrightarrow>
      linked K (heap s' (selectedCircles s' ! i)) (heap s' (selectedCircles s' ! Suc i))"
    by (simp add: chainLinked_nth)
  with s' show "\<exists>s'. onOverlaps K cs s = Inr s' \<and>
            chainLinked K (heap s') (selectedCircles s') \<and>
            (\<forall>i. Suc i < length (selectedCircles s') \<longrightarrow>
               (int (gridX (heap s' (selectedCircles s' ! Suc i)))
                  - int (gridX (heap s' (selectedCircles s' ! i))),
                int (gridY (heap s' (selectedCircles s' ! Suc i)))
                  - int (gridY (heap s' (selectedCircles s' ! i))))
                 \<in> set (if gridY (heap s' (selectedCircles s' ! i)) mod 2 = 0
                        then ADJACENT_CIRCLE_OFFSETS_RIGHT_LEANING K
                        else ADJACENT_CIRCLE_OFFSETS_LEFT_LEANING K) \<and>
               color (heap s' (selectedCircles s' ! i))
                 = color (heap s' (selectedCircles s' ! Suc i)))"
    by (auto simp: linked_def adjacentOffsets_def)
qed

text \<open>
  A first touch, and four touches on the upper two rows.
\<close>

theorem chain_links_consecutive_circles_witness:
  "selectedCircles freshExample = [] \<and>
   isValidNextCircle (hexConstants 2 3) freshExample 0 \<and>
   \<not> loopCreated freshExample \<and>
   onOverlap (hexConstants 2 3) 0 freshExample =
     Inr (freshExample\<lparr>selectedCircles := [0], currentPointsToAdd := 1\<rparr>) \<and>
   (\<exists>s'. onOverlaps (hexConstants 2 3) [0, 1, 3, 2] freshExample = Inr s' \<and>
      selectedCircles s' = [0, 1, 3, 2] \<and>
      chainLinked (hexConstants 2 3) (heap s') [0, 1, 3, 2])"
proof -
  note t = chain_links_consecutive_circles [OF freshExample_empty,
      of "hexConstants 2 3" 0 "[0, 1, 3, 2]"]
  from t obtain s' where v: "isValidNextCircle (hexConstants 2 3) freshExample 0"
    and s': "onOverlaps (hexConstants 2 3) [0, 1, 3, 2] freshExample = Inr s'"
      "chainLinked (hexConstants 2 3) (heap s') (selectedCircles s')"
    by blast
  have "selectedCircles s' = [0, 1, 3, 2]"
    using freshExample_touches s'(1) by simp
  with s' have 1: "\<exists>s'. onOverlaps (hexConstants 2 3) [0, 1, 3, 2] freshExample = Inr s' \<and>
      selectedCircles s' = [0, 1, 3, 2] \<and>
      chainLinked (hexConstants 2 3) (heap s') [0, 1, 3, 2]"
    by simp
  from t freshExample_unlooped
  have 2: "onOverlap (hexConstants 2 3) 0 freshExample =
     Inr (freshExample\<lparr>selectedCircles := [0], currentPointsToAdd := 1\<rparr>)"
    by (simp add: freshExample_points)
  from v 1 2 freshExample_empty freshExample_unlooped show ?thesis
    by simp
qed

text \<open>
  Claim C4, as amended. When the chain has at least two circles and the touched circle
  is the second-to-last one and passes the adjacency and colour check against the tail
  (which it does for every linked chain when the offset tables mirror each other), the
  tail is popped: the chain is its former self without the last circle, the preview
  counter drops by one and the loop flag is cleared. This undoes an append exactly, and
  it applies in the looped state too, where it undoes the loop closure except for the
  stored similar-colour list.
\<close>

theorem backtrack_pops_tail:
  assumes "2 \<le> length (selectedCircles s)"
    and "c = selectedCircles s ! (length (selectedCircles s) - 2)"
    and "isValidNextCircle K s c \<or>
         (mirroredOffsets K \<and> chainLinked K (heap s) (selectedCircles s))"
  shows "onOverlap K c s =
           Inr (s\<lparr>loopCreated := False, selectedCircles := butlast (selectedCircles s),
                  currentPointsToAdd := currentPointsToAdd s - 1\<rparr>) \<and>
         length (butlast (selectedCircles s)) + 1 = length (selectedCircles s) \<and>
         (\<forall>s0 t. \<not> loopCreated s0 \<and> s = addCircleToSelectedChain t s0 \<longrightarrow>
            onOverlap K c s = Inr s0) \<and>
         (\<forall>s0 t. \<not> loopCreated s0 \<and> s = handleLoopCreated t s0 \<longrightarrow>
            onOverlap K c s =
              Inr (s0\<lparr>allSimilarColorCircles := allSimilarColorCircles s\<rparr>))"
proof -
  have v: "isValidNextCircle K s c"
    using assms backtrack_target_valid [of K s] by blast
  have b: "isBackTracking s c"
    using assms(1,2) by (simp add: isBackTracking_iff)
  note r = onOverlap_backtrack [OF v b]
  have "onOverlap K c s = Inr s0"
    if "\<not> loopCreated s0" "s = addCircleToSelectedChain t s0" for s0 t
    unfolding r using that
    by (simp add: addCircleToSelectedChain_def updatePointsToBeAdded_def)
  moreover have "onOverlap K c s = Inr (s0\<lparr>allSimilarColorCircles := allSimilarColorCircles s\<rparr>)"
    if "\<not> loopCreated s0" "s = handleLoopCreated t s0" for s0 t
    unfolding r using that
    by (simp add: handleLoopCreated_def addCircleToSelectedChain_def updatePointsToBeAdded_def
          setAllSimilarColoredCirclesToSelectedCircles_def)
  moreover have "length (butlast (selectedCircles s)) + 1 = length (selectedCircles s)"
    using assms(1) by simp
  ultimately show ?thesis
    using r by blast
qed

text \<open>
  The chain 0, 1, 3 and a touch of circle 1: the scene is again the one in which
  circle 3 was appended.
\<close>

theorem backtrack_pops_tail_witness:
  "2 \<le> length (selectedCircles chainExample) \<and>
   1 = selectedCircles chainExample ! (length (selectedCircles chainExample) - 2) \<and>
   isValidNextCircle (hexConstants 2 3) chainExample 1 \<and>
   onOverlap (hexConstants 2 3) 1 chainExample =
     Inr (chainExample\<lparr>loopCreated := False, selectedCircles := [0, 1],
            currentPointsToAdd := 2\<rparr>) \<and>
   \<not> loopCreated (addCircleToSelectedChain 1 singleExample) \<and>
   chainExample = addCircleToSelectedChain 3 (addCircleToSelectedChain 1 singleExample) \<and>
   onOverlap (hexConstants 2 3) 1 chainExample
     = Inr (addCircleToSelectedChain 1 singleExample)"
proof -
  have h: "2 \<le> length (selectedCircles chainExample)"
    "1 = selectedCircles chainExample ! (length (selectedCircles chainExample) - 2)"
    by (simp_all add: chainExample_chain)
  have v: "isValidNextCircle (hexConstants 2 3) chainExample 1 \<or>
       (mirroredOffsets (hexConstants 2 3) \<and>
        chainLinked (hexConstants 2 3) (heap chainExample) (selectedCircles chainExample))"
    using chainExample_valid(1) by simp
  note t = backtrack_pops_tail [OF h v]
  have u: "\<not> loopCreated (addCircleToSelectedChain 1 singleExample)"
    by code_simp
  have d: "chainExample = addCircleToSelectedChain 3 (addCircleToSelectedChain 1 singleExample)"
    by (simp add: chainExample_def)
  from t u d have "onOverlap (hexConstants 2 3) 1 chainExample
     = Inr (addCircleToSelectedChain 1 singleExample)"
    by blast
  with t h chainExample_valid(1) u d show ?thesis
    by (simp add: chainExample_chain chainExample_points)
qed

text \<open>
  The claim as stated restricts the pop to the unlooped state. In the looped chain
  0, 1, 3, 0 a touch of circle 3 pops the tail and ends the looped state.
\<close>

theorem backtrack_in_looped_state_counterexample:
  "loopCreated loopExample \<and>
   selectedCircles loopExample = [0, 1, 3, 0] \<and>
   onOverlap (hexConstants 2 3) 3 loopExample =
     Inr (loopExample\<lparr>loopCreated := False, selectedCircles := [0, 1, 3],
            currentPointsToAdd := 3\<rparr>)"
proof -
  have "isBackTracking loopExample 3"
    by (simp add: isBackTracking_iff loopExample_chain)
  from onOverlap_backtrack [OF loopExample_valid this] show ?thesis
    by (simp add: loopExample_chain loopExample_points loopExample_looped)
qed

text \<open>
  Claim C5. A touched circle that passes the adjacency and colour check, is already in
  the chain, is not the second-to-last circle, while the selector is not looped, sets
  the loop flag, stores every circle of the board that has its colour as the
  similar-colour list, and is appended to the chain once more (the preview counter
  grows by one).
\<close>

theorem loop_closure:
  assumes "isValidNextCircle K s c" and "c \<in> set (selectedCircles s)"
    and "\<not> isBackTracking s c" and "\<not> loopCreated s"
  shows "onOverlap K c s =
           Inr (s\<lparr>loopCreated := True,
                  allSimilarColorCircles :=
                    filter (\<lambda>x. color (heap s x) = color (heap s c)) (concat (board s)),
                  selectedCircles := selectedCircles s @ [c],
                  currentPointsToAdd := currentPointsToAdd s + 1\<rparr>)"
  using assms by (simp add: onOverlap_loop)

text \<open>The chain 0, 1, 3 and a touch of circle 0.\<close>

theorem loop_closure_witness:
  "isValidNextCircle (hexConstants 2 3) chainExample 0 \<and>
   0 \<in> set (selectedCircles chainExample) \<and>
   \<not> isBackTracking chainExample 0 \<and> \<not> loopCreated chainExample \<and>
   onOverlap (hexConstants 2 3) 0 chainExample =
     Inr (chainExample\<lparr>loopCreated := True, allSimilarColorCircles := [0, 2, 4, 1, 3],
            selectedCircles := [0, 1, 3, 0], currentPointsToAdd := 4\<rparr>)"
proof -
  have h: "0 \<in> set (selectedCircles chainExample)" "\<not> isBackTracking chainExample 0"
    by (simp_all add: chainExample_chain isBackTracking_iff)
  have c: "color (heap chainExample 0) = 0" "color (heap chainExample (Suc 0)) = 0"
    "color (heap chainExample 2) = 0" "color (heap chainExample 3) = 0"
    "color (heap chainExample 4) = 0" "color (heap chainExample 5) = 1"
    using chainExample_color by simp_all
  from loop_closure [OF chainExample_valid(2) h chainExample_unlooped]
    chainExample_valid(2) h chainExample_unlooped
  show ?thesis
    by (simp add: chainExample_chain chainExample_points chainExample_board c)
qed

text \<open>
  Claim C6. Committing a chain adds to the score the number of committed circles when
  that number is below 10 and twice the number otherwise: 9 circles give 9 points, 10
  give 20, 1 gives 1. The committed circles are the chain, or the similar-colour list
  when the selector is looped.
\<close>

theorem commit_points:
  assumes "committed = (if loopCreated s then allSimilarColorCircles s else selectedCircles s)"
    and "committed \<noteq> []"
  shows "\<exists>s' cols. clearAllSelectedCircles s = Inr (s', cols) \<and>
           selectedCircles s' = committed \<and>
           score s' - score s =
             (if length committed < 10 then int (length committed)
              else 2 * int (length committed)) \<and>
           (length committed = 9 \<longrightarrow> score s' - score s = 9) \<and>
           (length committed = 10 \<longrightarrow> score s' - score s = 20) \<and>
           (length committed = 1 \<longrightarrow> score s' - score s = 1)"
  unfolding clearAllSelectedCircles_commit [OF assms]
  by simp

text \<open>The chain of all ten circles of a board of two columns of height 5.\<close>

theorem commit_points_witness:
  "[0, 1, 3, 2, 4, 5, 7, 6, 8, 9]
     = (if loopCreated tenExample then allSimilarColorCircles tenExample
        else selectedCircles tenExample) \<and>
   [0, 1, 3, 2, 4, 5, 7, 6, 8, 9] \<noteq> ([] :: nat list) \<and>
   (\<exists>s' cols. clearAllSelectedCircles tenExample = Inr (s', cols) \<and>
      score s' - score tenExample = 20)"
proof -
  have h: "[0, 1, 3, 2, 4, 5, 7, 6, 8, 9]
     = (if loopCreated tenExample then allSimilarColorCircles tenExample
        else selectedCircles tenExample)"
    "[0, 1, 3, 2, 4, 5, 7, 6, 8, 9] \<noteq> ([] :: nat list)"
    by (simp_all add: tenExample_chain tenExample_unlooped)
  from commit_points [OF h] h show ?thesis
    by auto
qed

text \<open>
  Claim C7. On pointer up during a running round: a chain of at most one circle is
  emptied and nothing else of the game state changes (no points, same board). A longer
  chain is committed: the handler adds the points at once, leaves the committed circles
  in the chain and the board as it was, and starts one shrink tween per committed
  circle. When the completion callbacks of those tweens run one after the other from
  the scene the handler left, with no other handler in between, the last of them hands
  the columns of the committed circles to \<^verbatim>\<open>updateBoard\<close> and empties the chain; on a
  board of full live columns the board is full and live again afterwards. \<^verbatim>\<open>clearBoard\<close>
  and the end of the countdown empty the chain as well.
\<close>

theorem release_commits_or_discards:
  assumes "gameIsRunning s"
    and "committed = (if loopCreated s then allSimilarColorCircles s else selectedCircles s)"
    and "points = (if 10 \<le> int (length committed) then int (length committed) * 2
                   else int (length committed))"
    and "cols = collectColumns (heap s) committed []"
    and "s1 = s\<lparr>pointerBodyEnabled := False, selectedCircles := committed,
                 boardRefillHappening := True, loopCreated := False,
                 currentPointsToAdd := 0, score := score s + points\<rparr>"
  shows "(length (selectedCircles s) \<le> 1 \<longrightarrow>
            pointerup s = Inr (s\<lparr>pointerBodyEnabled := False, selectedCircles := []\<rparr>, None) \<and>
            releaseGesture K s = Inr (s\<lparr>pointerBodyEnabled := False, selectedCircles := []\<rparr>)) \<and>
         (1 < length (selectedCircles s) \<and> committed \<noteq> [] \<and>
          (\<forall>c\<in>set committed. gridX (heap s c) < length (board s)) \<longrightarrow>
            pointerup s = Inr (s1, Some cols) \<and>
            set cols = (\<lambda>c. gridX (heap s c)) ` set committed \<and> distinct cols \<and>
            (\<exists>s2. updateBoard K cols (fold destroy committed s1) = Inr s2 \<and>
               runShrinkTweens K cols committed (s1, 0)
                 = Inr (s2\<lparr>selectedCircles := []\<rparr>, length committed) \<and>
               releaseGesture K s = Inr (s2\<lparr>selectedCircles := []\<rparr>) \<and>
               score s2 = score s + points \<and> \<not> loopCreated s2 \<and>
               currentPointsToAdd s2 = 0)) \<and>
         (1 < length (selectedCircles s) \<and> committed \<noteq> [] \<and>
          (\<forall>c\<in>set committed. gridX (heap s c) < length (board s)) \<and>
          (\<forall>x<length (board s). length (board s ! x) = GRID_HEIGHT K \<and>
             (\<forall>i\<in>set (board s ! x).
                i < nextId s \<and> active (heap s i) \<and> gridX (heap s i) = x)) \<longrightarrow>
            (\<exists>s'. runShrinkTweens K cols committed (s1, 0) = Inr (s', length committed) \<and>
               releaseGesture K s = Inr s' \<and> selectedCircles s' = [] \<and>
               length (board s') = length (board s) \<and>
               (\<forall>x<length (board s'). length (board s' ! x) = GRID_HEIGHT K \<and>
                  (\<forall>i\<in>set (board s' ! x). active (heap s' i))))) \<and>
         selectedCircles (clearBoard s) = [] \<and>
         selectedCircles (onCountdownComplete s) = []"
proof (intro conjI impI)
  assume le: "length (selectedCircles s) \<le> 1"
  show "pointerup s = Inr (s\<lparr>pointerBodyEnabled := False, selectedCircles := []\<rparr>, None)"
    using pointerup_discard [OF assms(1) le] .
  then show "releaseGesture K s = Inr (s\<lparr>pointerBodyEnabled := False, selectedCircles := []\<rparr>)"
    by (simp add: releaseGesture_def)
next
  assume h: "1 < length (selectedCircles s) \<and> committed \<noteq> [] \<and>
          (\<forall>c\<in>set committed. gridX (heap s c) < length (board s))"
  have s1: "s1 = s\<lparr>pointerBodyEnabled := False, selectedCircles := committed,
                 boardRefillHappening := True, loopCreated := False,
                 currentPointsToAdd := 0,
                 score := score s +
                   (if 10 \<le> int (length committed) then int (length committed) * 2
                    else int (length committed))\<rparr>"
    unfolding assms(5) assms(3) ..
  show p: "pointerup s = Inr (s1, Some cols)"
    using pointerup_commit [OF assms(1) _ assms(2)] h s1 assms(4) by simp
  show cs: "set cols = (\<lambda>c. gridX (heap s c)) ` set committed"
    unfolding assms(4) by (simp add: collectColumns_set)
  show "distinct cols"
    unfolding assms(4) by (simp add: collectColumns_distinct)
  have "\<forall>c\<in>set cols. c < length (board (fold destroy committed s1))"
    using h cs by (auto simp: assms(5))
  then obtain s2 where u: "updateBoard K cols (fold destroy committed s1) = Inr s2"
    using updateBoard_Inr by blast
  have "selectedCircles s1 = [] @ committed"
    by (simp add: assms(5))
  from runShrinkTweens_latch [OF this, of 0 K cols] h u
  have t: "runShrinkTweens K cols committed (s1, 0)
             = Inr (s2\<lparr>selectedCircles := []\<rparr>, length committed)"
    by simp
  have r: "releaseGesture K s = Inr (s2\<lparr>selectedCircles := []\<rparr>)"
    using releaseGesture_commit [OF assms(1) _ assms(2) _ s1, of K] h u assms(4) by simp
  have f: "score s2 = score s + points" "\<not> loopCreated s2" "currentPointsToAdd s2 = 0"
    using updateBoard_fields [OF u] by (simp_all add: assms(5))
  show "\<exists>s2. updateBoard K cols (fold destroy committed s1) = Inr s2 \<and>
               runShrinkTweens K cols committed (s1, 0)
                 = Inr (s2\<lparr>selectedCircles := []\<rparr>, length committed) \<and>
               releaseGesture K s = Inr (s2\<lparr>selectedCircles := []\<rparr>) \<and>
               score s2 = score s + points \<and> \<not> loopCreated s2 \<and>
               currentPointsToAdd s2 = 0"
    using u t r f by (intro exI [of _ s2]) simp
next
  assume h: "1 < length (selectedCircles s) \<and> committed \<noteq> [] \<and>
          (\<forall>c\<in>set committed. gridX (heap s c) < length (board s)) \<and>
          (\<forall>x<length (board s). length (board s ! x) = GRID_HEIGHT K \<and>
             (\<forall>i\<in>set (board s ! x).
                i < nextId s \<and> active (heap s i) \<and> gridX (heap s i) = x))"
  have s1: "s1 = s\<lparr>pointerBodyEnabled := False, selectedCircles := committed,
                 boardRefillHappening := True, loopCreated := False,
                 currentPointsToAdd := 0,
                 score := score s +
                   (if 10 \<le> int (length committed) then int (length committed) * 2
                    else int (length committed))\<rparr>"
    unfolding assms(5) assms(3) ..
  let ?d = "fold destroy committed s1"
  have b: "board ?d = board s" and n: "nextId ?d = nextId s"
    by (simp_all add: assms(5))
  have a: "active (heap ?d i) = (active (heap s i) \<and> i \<notin> set committed)" for i
    by (simp add: fold_destroy_active assms(5))
  have cs: "set cols = (\<lambda>c. gridX (heap s c)) ` set committed"
    unfolding assms(4) by (simp add: collectColumns_set)
  have shape: "\<forall>c<length (board ?d). length (board ?d ! c) = GRID_HEIGHT K \<and>
             (\<forall>i\<in>set (board ?d ! c). i < nextId ?d)"
    using h unfolding b n by simp
  have inr: "\<forall>c\<in>set cols. c < length (board ?d)"
    using h cs unfolding b by auto
  have dead: "\<forall>c<length (board ?d). c \<notin> set cols \<longrightarrow>
                (\<forall>i\<in>set (board ?d ! c). active (heap ?d i))"
  proof (intro allI impI ballI)
    fix c i
    assume c: "c < length (board ?d)" "c \<notin> set cols" and i: "i \<in> set (board ?d ! c)"
    have g: "active (heap s i)" "gridX (heap s i) = c"
      using h c(1) i unfolding b by simp_all
    have "i \<notin> set committed"
    proof
      assume "i \<in> set committed"
      then have "gridX (heap s i) \<in> set cols"
        using cs by simp
      with g(2) c(2) show False by simp
    qed
    with g(1) show "active (heap ?d i)"
      by (simp add: a)
  qed
  from updateBoard_restores [OF shape inr dead]
  obtain s2 where u: "updateBoard K cols ?d = Inr s2"
    and l: "length (board s2) = length (board ?d)"
    and w: "\<forall>c<length (board s2). length (board s2 ! c) = GRID_HEIGHT K \<and>
              (\<forall>i\<in>set (board s2 ! c). active (heap s2 i) \<and> i < nextId s2)"
    by blast
  have "selectedCircles s1 = [] @ committed"
    by (simp add: assms(5))
  from runShrinkTweens_latch [OF this, of 0 K cols] h u
  have t: "runShrinkTweens K cols committed (s1, 0)
             = Inr (s2\<lparr>selectedCircles := []\<rparr>, length committed)"
    by simp
  have r: "releaseGesture K s = Inr (s2\<lparr>selectedCircles := []\<rparr>)"
    using releaseGesture_commit [OF assms(1) _ assms(2) _ s1, of K] h u assms(4) by simp
  show "\<exists>s'. runShrinkTweens K cols committed (s1, 0) = Inr (s', length committed) \<and>
               releaseGesture K s = Inr s' \<and> selectedCircles s' = [] \<and>
               length (board s') = length (board s) \<and>
               (\<forall>x<length (board s'). length (board s' ! x) = GRID_HEIGHT K \<and>
                  (\<forall>i\<in>set (board s' ! x). active (heap s' i)))"
    using t r l w b by (intro exI [of _ "s2\<lparr>selectedCircles := []\<rparr>"]) simp
next
  show "selectedCircles (clearBoard s) = []"
    by (simp add: clearBoard_def)
  show "selectedCircles (onCountdownComplete s) = []"
    by (simp add: onCountdownComplete_def clearPreviousGame_def clearBoard_def Let_def)
qed

text \<open>Releasing the chain 0, 1, 3, and releasing the chain of circle 0 alone.\<close>

theorem release_commits_or_discards_witness:
  "gameIsRunning chainExample \<and> 1 < length (selectedCircles chainExample) \<and>
   pointerup chainExample = Inr (committedExample, Some [0, 1]) \<and>
   (\<exists>s'. runShrinkTweens (hexConstants 2 3) [0, 1] [0, 1, 3] (committedExample, 0)
            = Inr (s', 3) \<and>
      releaseGesture (hexConstants 2 3) chainExample = Inr s' \<and>
      selectedCircles s' = [] \<and> score s' = 3 \<and> length (board s') = 2 \<and>
      list_all (\<lambda>c. length c = 3 \<and> list_all (\<lambda>i. active (heap s' i)) c) (board s')) \<and>
   gameIsRunning singleExample \<and> length (selectedCircles singleExample) \<le> 1 \<and>
   releaseGesture (hexConstants 2 3) singleExample
     = Inr (singleExample\<lparr>pointerBodyEnabled := False, selectedCircles := []\<rparr>)"
proof -
  have c: "[0, 1, 3] = (if loopCreated chainExample then allSimilarColorCircles chainExample
                         else selectedCircles chainExample)"
    by (simp add: chainExample_chain chainExample_unlooped)
  have p: "3 = (if 10 \<le> int (length [0::nat, 1, 3]) then int (length [0::nat, 1, 3]) * 2
                else int (length [0::nat, 1, 3]))"
    by simp
  have k: "collectColumns (heap chainExample) [0, 1, 3] [] = [0, 1]"
    by (simp add: chainExample_columns)
  have e: "chainExample\<lparr>pointerBodyEnabled := False, selectedCircles := [0, 1, 3],
             boardRefillHappening := True, loopCreated := False, currentPointsToAdd := 0,
             score := score chainExample + 3\<rparr> = committedExample"
    by (simp add: committedExample_def chainExample_score)
  note t = release_commits_or_discards [OF chainExample_running c p k [symmetric]
      e [symmetric], of "hexConstants 2 3"]
  have h: "1 < length (selectedCircles chainExample) \<and> [0, 1, 3] \<noteq> ([] :: nat list) \<and>
          (\<forall>c\<in>set [0, 1, 3]. gridX (heap chainExample c) < length (board chainExample))"
    by (simp add: chainExample_chain chainExample_board chainExample_columns)
  from t [THEN conjunct2, THEN conjunct1, rule_format, OF h]
  have 0: "pointerup chainExample = Inr (committedExample, Some [0, 1])"
    by simp
  from h chainExample_shape have "1 < length (selectedCircles chainExample) \<and>
      [0, 1, 3] \<noteq> ([] :: nat list) \<and>
      (\<forall>c\<in>set [0, 1, 3]. gridX (heap chainExample c) < length (board chainExample)) \<and>
      (\<forall>x<length (board chainExample).
          length (board chainExample ! x) = GRID_HEIGHT (hexConstants 2 3) \<and>
          (\<forall>i\<in>set (board chainExample ! x).
              i < nextId chainExample \<and> active (heap chainExample i) \<and>
              gridX (heap chainExample i) = x))"
    by simp
  from t [THEN conjunct2, THEN conjunct2, THEN conjunct1, rule_format, OF this]
  obtain s' where
    r: "runShrinkTweens (hexConstants 2 3) [0, 1] [0, 1, 3] (committedExample, 0)
          = Inr (s', length [0::nat, 1, 3])"
      "releaseGesture (hexConstants 2 3) chainExample = Inr s'"
      "selectedCircles s' = []"
    and w: "length (board s') = length (board chainExample)"
      "\<forall>x<length (board s'). length (board s' ! x) = GRID_HEIGHT (hexConstants 2 3) \<and>
         (\<forall>i\<in>set (board s' ! x). active (heap s' i))"
    by blast
  from t [THEN conjunct2, THEN conjunct1, rule_format, OF h, THEN conjunct2, THEN conjunct2,
      THEN conjunct2]
  obtain s2 where "releaseGesture (hexConstants 2 3) chainExample
        = Inr (s2\<lparr>selectedCircles := []\<rparr>)"
    and "score s2 = score chainExample + 3"
    by blast
  with r(2) have sc: "score s' = 3"
    by (auto simp: chainExample_score)
  from w have "length (board s') = 2"
    and "list_all (\<lambda>c. length c = 3 \<and> list_all (\<lambda>i. active (heap s' i)) c) (board s')"
    by (auto simp: list_all_length chainExample_board hexConstants_def)
  with r sc have 1: "\<exists>s'. runShrinkTweens (hexConstants 2 3) [0, 1] [0, 1, 3] (committedExample, 0)
            = Inr (s', 3) \<and>
      releaseGesture (hexConstants 2 3) chainExample = Inr s' \<and>
      selectedCircles s' = [] \<and> score s' = 3 \<and> length (board s') = 2 \<and>
      list_all (\<lambda>c. length c = 3 \<and> list_all (\<lambda>i. active (heap s' i)) c) (board s')"
    by (intro exI [of _ s']) simp
  have le: "length (selectedCircles singleExample) \<le> 1"
    by (simp add: singleExample_chain)
  from release_commits_or_discards [OF singleExample_running refl refl refl refl,
      of "hexConstants 2 3"] le
  have 2: "releaseGesture (hexConstants 2 3) singleExample
     = Inr (singleExample\<lparr>pointerBodyEnabled := False, selectedCircles := []\<rparr>)"
    by blast
  from 0 1 2 h le chainExample_running singleExample_running show ?thesis
    by simp
qed

text \<open>
  Releasing the chain 0, 1, 3: when the handler returns the three circles are still in
  the chain and the board is untouched. A second pointer up before the shrink tweens
  complete is accepted (the handler has no \<^verbatim>\<open>boardRefillHappening\<close> guard) and commits the
  same chain again, for 6 points in all. When the countdown ends before the tweens
  complete, the chain is empty at each completion callback, the count of completed
  tweens never equals its length, and \<^verbatim>\<open>updateBoard\<close> is never called.
\<close>

theorem release_defers_compaction_counterexample:
  "gameIsRunning chainExample \<and> selectedCircles chainExample = [0, 1, 3] \<and>
   score chainExample = 0 \<and>
   pointerup chainExample = Inr (committedExample, Some [0, 1]) \<and>
   selectedCircles committedExample = [0, 1, 3] \<and>
   board committedExample = board chainExample \<and>
   heap committedExample = heap chainExample \<and>
   score committedExample = 3 \<and>
   pointerup committedExample = Inr (committedExample\<lparr>score := 6\<rparr>, Some [0, 1]) \<and>
   runShrinkTweens (hexConstants 2 3) [0, 1] [0, 1, 3] (onCountdownComplete committedExample, 0)
     = Inr (fold destroy [0, 1, 3] (onCountdownComplete committedExample), 3) \<and>
   board (fold destroy [0, 1, 3] (onCountdownComplete committedExample)) = [] \<and>
   nextId (fold destroy [0, 1, 3] (onCountdownComplete committedExample))
     = nextId chainExample"
proof -
  have "runShrinkTweens (hexConstants 2 3) [0, 1] [0, 1, 3]
          (onCountdownComplete committedExample, 0)
     = Inr (fold destroy [0, 1, 3] (onCountdownComplete committedExample), 3)"
    using runShrinkTweens_orphaned [of "onCountdownComplete committedExample"
        "hexConstants 2 3" "[0, 1]" "[0, 1, 3]" 0]
    by (simp add: onCountdownComplete_fields)
  moreover have "nextId committedExample = nextId chainExample"
    "heap committedExample = heap chainExample"
    by (simp_all add: committedExample_def)
  ultimately show ?thesis
    using chainExample_running chainExample_chain chainExample_score chainExample_release
      committedExample_release committedExample_fields
    by (simp add: onCountdownComplete_fields)
qed

text \<open>
  Claim C8. When the countdown completes the round stops running, the high score
  becomes the maximum of the high score and the score (it changes only when the score
  is larger), the board and the chain are emptied and the end menu shows the last score
  and the high score. \<^verbatim>\<open>create\<close> sets the high score to 0 and starting a game leaves it
  as it is.
\<close>

theorem countdown_complete:
  "gameIsRunning (onCountdownComplete s) = False \<and>
   highScore (onCountdownComplete s) = max (highScore s) (score s) \<and>
   highScore (onCountdownComplete s)
     = (if score s > highScore s then score s else highScore s) \<and>
   score (onCountdownComplete s) = score s \<and>
   board (onCountdownComplete s) = [] \<and>
   selectedCircles (onCountdownComplete s) = [] \<and>
   menu (onCountdownComplete s) = Some (EndMenu (score s) (max (highScore s) (score s))) \<and>
   highScore (create r) = 0 \<and>
   highScore (startGame K s) = highScore s \<and>
   highScore (startButtonPressed K s) = highScore s \<and>
   highScore (startGame K (onCountdownComplete s)) = max (highScore s) (score s)"
  by (simp add: onCountdownComplete_def clearPreviousGame_def clearBoard_def Let_def
        create_def initializeGameVariables_def startButtonPressed_def startGame_fields max_def)

text \<open>
  Claim C9. When a loop is closed and the gesture is released, the committed circles
  are exactly the circles of the board that have the loop's colour, as stored when the
  loop was closed, and the points are their number, doubled from 10 on; the chain with
  its repeated circle plays no part. In general a commit in the looped state replaces
  the chain by the stored similar-colour list before it scores.
\<close>

theorem looped_commit_scores_colour_count:
  assumes "isValidNextCircle K s c" and "c \<in> set (selectedCircles s)"
    and "\<not> isBackTracking s c" and "\<not> loopCreated s"
    and "c \<in> set (concat (board s))" and "gameIsRunning s"
    and "same = filter (\<lambda>x. color (heap s x) = color (heap s c)) (concat (board s))"
  shows "(\<exists>s1 s2 cols. onOverlap K c s = Inr s1 \<and>
            selectedCircles s1 = selectedCircles s @ [c] \<and>
            pointerup s1 = Inr (s2, Some cols) \<and>
            selectedCircles s2 = same \<and>
            cols = collectColumns (heap s) same [] \<and>
            score s2 = score s +
              (if 10 \<le> int (length same) then 2 * int (length same) else int (length same))) \<and>
         (\<forall>t. loopCreated t \<and> allSimilarColorCircles t \<noteq> [] \<longrightarrow>
            (\<exists>t' cols. clearAllSelectedCircles t = Inr (t', cols) \<and>
               selectedCircles t' = allSimilarColorCircles t \<and>
               score t' = score t +
                 (if 10 \<le> int (length (allSimilarColorCircles t))
                  then 2 * int (length (allSimilarColorCircles t))
                  else int (length (allSimilarColorCircles t)))))"
proof (intro conjI allI impI)
  let ?s1 = "s\<lparr>loopCreated := True, allSimilarColorCircles := same,
                selectedCircles := selectedCircles s @ [c],
                currentPointsToAdd := currentPointsToAdd s + 1\<rparr>"
  have o: "onOverlap K c s = Inr ?s1"
    using onOverlap_loop [OF assms(1,3,2,4)] assms(7) by simp
  have ne: "same \<noteq> []"
    using assms(5,7) by (auto simp: filter_empty_conv)
  have "selectedCircles s \<noteq> []"
    using assms(2) by auto
  then have len: "1 < length (selectedCircles ?s1)"
    by (cases "selectedCircles s") simp_all
  have run: "gameIsRunning ?s1"
    using assms(6) by simp
  have "same = (if loopCreated ?s1 then allSimilarColorCircles ?s1 else selectedCircles ?s1)"
    by simp
  from pointerup_commit [OF run len this ne] o
  show "\<exists>s1 s2 cols. onOverlap K c s = Inr s1 \<and>
            selectedCircles s1 = selectedCircles s @ [c] \<and>
            pointerup s1 = Inr (s2, Some cols) \<and>
            selectedCircles s2 = same \<and>
            cols = collectColumns (heap s) same [] \<and>
            score s2 = score s +
              (if 10 \<le> int (length same) then 2 * int (length same) else int (length same))"
    by simp
next
  fix t :: scene
  assume t: "loopCreated t \<and> allSimilarColorCircles t \<noteq> []"
  then have "allSimilarColorCircles t
               = (if loopCreated t then allSimilarColorCircles t else selectedCircles t)"
    by simp
  from clearAllSelectedCircles_commit [OF this] t
  show "\<exists>t' cols. clearAllSelectedCircles t = Inr (t', cols) \<and>
               selectedCircles t' = allSimilarColorCircles t \<and>
               score t' = score t +
                 (if 10 \<le> int (length (allSimilarColorCircles t))
                  then 2 * int (length (allSimilarColorCircles t))
                  else int (length (allSimilarColorCircles t)))"
    by simp
qed

text \<open>
  The chain 0, 1, 3 closed by touching 0: the chain has four entries, the board has five
  circles of colour 0, and the release scores 5.
\<close>

theorem looped_commit_scores_colour_count_witness:
  "isValidNextCircle (hexConstants 2 3) chainExample 0 \<and>
   0 \<in> set (selectedCircles chainExample) \<and>
   \<not> isBackTracking chainExample 0 \<and> \<not> loopCreated chainExample \<and>
   0 \<in> set (concat (board chainExample)) \<and> gameIsRunning chainExample \<and>
   (\<exists>s1 s2 cols. onOverlap (hexConstants 2 3) 0 chainExample = Inr s1 \<and>
      selectedCircles s1 = [0, 1, 3, 0] \<and>
      pointerup s1 = Inr (s2, Some cols) \<and>
      selectedCircles s2 = [0, 2, 4, 1, 3] \<and> score s2 = 5) \<and>
   loopCreated loopExample \<and> allSimilarColorCircles loopExample \<noteq> [] \<and>
   (\<exists>t' cols. clearAllSelectedCircles loopExample = Inr (t', cols) \<and>
      selectedCircles t' = [0, 2, 4, 1, 3] \<and> score t' = 5)"
proof -
  have h: "0 \<in> set (selectedCircles chainExample)" "\<not> isBackTracking chainExample 0"
    by (simp_all add: chainExample_chain isBackTracking_iff)
  have b: "0 \<in> set (concat (board chainExample))"
    by (simp add: chainExample_board)
  have c: "color (heap chainExample 0) = 0" "color (heap chainExample (Suc 0)) = 0"
    "color (heap chainExample 2) = 0" "color (heap chainExample 3) = 0"
    "color (heap chainExample 4) = 0" "color (heap chainExample 5) = 1"
    using chainExample_color by simp_all
  have s: "[0, 2, 4, 1, 3] =
           filter (\<lambda>x. color (heap chainExample x) = color (heap chainExample 0))
             (concat (board chainExample))"
    by (simp add: chainExample_board c)
  note t = looped_commit_scores_colour_count [OF chainExample_valid(2) h chainExample_unlooped b
      chainExample_running s]
  have l: "loopCreated loopExample \<and> allSimilarColorCircles loopExample \<noteq> []"
    by (simp add: loopExample_looped loopExample_similar)
  from t [THEN conjunct2, rule_format, OF l]
  have g: "\<exists>t' cols. clearAllSelectedCircles loopExample = Inr (t', cols) \<and>
      selectedCircles t' = [0, 2, 4, 1, 3] \<and> score t' = 5"
    by (simp add: loopExample_similar loopExample_score)
  from t
  obtain s1 s2 cols where "onOverlap (hexConstants 2 3) 0 chainExample = Inr s1"
    and "selectedCircles s1 = selectedCircles chainExample @ [0]"
    and "pointerup s1 = Inr (s2, Some cols)"
    and "selectedCircles s2 = [0, 2, 4, 1, 3]"
    and "score s2 = score chainExample +
           (if 10 \<le> int (length [0::nat, 2, 4, 1, 3]) then 2 * int (length [0::nat, 2, 4, 1, 3])
            else int (length [0::nat, 2, 4, 1, 3]))"
    by blast
  then have "\<exists>s1 s2 cols. onOverlap (hexConstants 2 3) 0 chainExample = Inr s1 \<and>
      selectedCircles s1 = [0, 1, 3, 0] \<and>
      pointerup s1 = Inr (s2, Some cols) \<and>
      selectedCircles s2 = [0, 2, 4, 1, 3] \<and> score s2 = 5"
    by (simp add: chainExample_chain chainExample_score)
  with chainExample_valid(2) h chainExample_unlooped b chainExample_running l g show ?thesis
    by simp
qed

text \<open>
  Claim C10. Releasing a chain of exactly one circle empties the chain and disables the
  pointer body and changes nothing else: the preview counter keeps the 1 the circle
  added. The counter is set to 0 only by a commit of a longer chain and by
  \<^verbatim>\<open>initializeGameVariables\<close>; a release of a shorter chain, the countdown's end, pointer
  down and the shrink callbacks leave it as it is, and an overlap event moves it by at
  most one.
\<close>

theorem single_circle_release_keeps_preview:
  assumes "gameIsRunning s" and "length (selectedCircles s) = 1"
  shows "pointerup s = Inr (s\<lparr>pointerBodyEnabled := False, selectedCircles := []\<rparr>, None) \<and>
         releaseGesture K s = Inr (s\<lparr>pointerBodyEnabled := False, selectedCircles := []\<rparr>) \<and>
         (\<forall>s0 c. s = addCircleToSelectedChain c s0 \<longrightarrow>
            (\<exists>s'. releaseGesture K s = Inr s' \<and> selectedCircles s' = [] \<and>
               currentPointsToAdd s' = currentPointsToAdd s0 + 1 \<and> score s' = score s0)) \<and>
         (\<forall>t t' x. 1 < length (selectedCircles t) \<and> pointerup t = Inr (t', Some x) \<longrightarrow>
            currentPointsToAdd t' = 0) \<and>
         (\<forall>t. currentPointsToAdd (initializeGameVariables t) = 0) \<and>
         (\<forall>t. currentPointsToAdd (startGame K t) = 0) \<and>
         (\<forall>t t' x. length (selectedCircles t) \<le> 1 \<and> pointerup t = Inr (t', x) \<longrightarrow>
            currentPointsToAdd t' = currentPointsToAdd t) \<and>
         (\<forall>t. currentPointsToAdd (onCountdownComplete t) = currentPointsToAdd t) \<and>
         (\<forall>t. currentPointsToAdd (pointerdown t) = currentPointsToAdd t) \<and>
         (\<forall>t t' cols c k k'. shrinkComplete K cols c (t, k) = Inr (t', k') \<longrightarrow>
            currentPointsToAdd t' = currentPointsToAdd t) \<and>
         (\<forall>t t' c. onOverlap K c t = Inr t' \<longrightarrow>
            currentPointsToAdd t' = currentPointsToAdd t - 1 \<or>
            currentPointsToAdd t' = currentPointsToAdd t \<or>
            currentPointsToAdd t' = currentPointsToAdd t + 1)"
proof -
  have le: "length (selectedCircles s) \<le> 1"
    using assms(2) by simp
  have p: "pointerup s = Inr (s\<lparr>pointerBodyEnabled := False, selectedCircles := []\<rparr>, None)"
    using pointerup_discard [OF assms(1) le] .
  then have r: "releaseGesture K s = Inr (s\<lparr>pointerBodyEnabled := False, selectedCircles := []\<rparr>)"
    by (simp add: releaseGesture_def)
  have a: "\<exists>s'. releaseGesture K s = Inr s' \<and> selectedCircles s' = [] \<and>
               currentPointsToAdd s' = currentPointsToAdd s0 + 1 \<and> score s' = score s0"
    if "s = addCircleToSelectedChain c s0" for s0 c
    unfolding r using that
    by (simp add: addCircleToSelectedChain_def updatePointsToBeAdded_def)
  have b: "currentPointsToAdd t' = 0"
    if "1 < length (selectedCircles t) \<and> pointerup t = Inr (t', Some x)" for t t' x
    using that
    by (auto simp: pointerup_def clearAllSelectedCircles_def resetPointsToBeAdded_def
          addPoints_def Let_def split: if_splits sum.splits)
  have c: "currentPointsToAdd t' = currentPointsToAdd t"
    if "length (selectedCircles t) \<le> 1 \<and> pointerup t = Inr (t', x)" for t t' x
    using that by (auto simp: pointerup_def Let_def split: if_splits)
  have d: "currentPointsToAdd (onCountdownComplete t) = currentPointsToAdd t" for t
    by (simp add: onCountdownComplete_def clearPreviousGame_def clearBoard_def Let_def)
  have e: "currentPointsToAdd (pointerdown t) = currentPointsToAdd t" for t
    by (simp add: pointerdown_def)
  have f: "currentPointsToAdd (initializeGameVariables t) = 0" for t
    by (simp add: initializeGameVariables_def)
  have g: "currentPointsToAdd (startGame K t) = 0" for t
    by (simp add: startGame_fields)
  show ?thesis
    using p r a b c d e f g shrinkComplete_points onOverlap_points
    by (intro conjI allI impI) blast+
qed

text \<open>
  Touching circle 0 and releasing: the preview counter stays at 1. Releasing the chain
  0, 1, 3 sets it to 0.
\<close>

theorem single_circle_release_keeps_preview_witness:
  "gameIsRunning singleExample \<and> length (selectedCircles singleExample) = 1 \<and>
   currentPointsToAdd singleExample = 1 \<and>
   releaseGesture (hexConstants 2 3) singleExample
     = Inr (singleExample\<lparr>pointerBodyEnabled := False, selectedCircles := []\<rparr>) \<and>
   singleExample = addCircleToSelectedChain 0 freshExample \<and>
   (\<exists>s'. releaseGesture (hexConstants 2 3) singleExample = Inr s' \<and>
      selectedCircles s' = [] \<and> currentPointsToAdd s' = currentPointsToAdd freshExample + 1) \<and>
   1 < length (selectedCircles chainExample) \<and>
   (\<exists>t' x. pointerup chainExample = Inr (t', Some x) \<and> currentPointsToAdd t' = 0)"
proof -
  have l: "length (selectedCircles singleExample) = 1"
    by (simp add: singleExample_chain)
  note t = single_circle_release_keeps_preview [OF singleExample_running l,
      of "hexConstants 2 3"]
  from t have 1: "releaseGesture (hexConstants 2 3) singleExample
     = Inr (singleExample\<lparr>pointerBodyEnabled := False, selectedCircles := []\<rparr>)"
    by blast
  have d: "singleExample = addCircleToSelectedChain 0 freshExample"
    by (simp add: singleExample_def)
  from t [THEN conjunct2, THEN conjunct2, THEN conjunct1, rule_format, OF d]
  have 2: "\<exists>s'. releaseGesture (hexConstants 2 3) singleExample = Inr s' \<and>
      selectedCircles s' = [] \<and> currentPointsToAdd s' = currentPointsToAdd freshExample + 1"
    by blast
  have g: "1 < length (selectedCircles chainExample)"
    by (simp add: chainExample_chain)
  have "[0, 1, 3] = (if loopCreated chainExample then allSimilarColorCircles chainExample
                     else selectedCircles chainExample)"
    by (simp add: chainExample_chain chainExample_unlooped)
  from pointerup_commit [OF chainExample_running g this]
  obtain t' x where p: "pointerup chainExample = Inr (t', Some x)"
    by auto
  with g have "1 < length (selectedCircles chainExample) \<and>
      pointerup chainExample = Inr (t', Some x)"
    by simp
  from t [THEN conjunct2, THEN conjunct2, THEN conjunct2, THEN conjunct1, rule_format, OF this]
  have "currentPointsToAdd t' = 0" .
  with p have 3: "\<exists>t' x. pointerup chainExample = Inr (t', Some x) \<and> currentPointsToAdd t' = 0"
    by blast
  from 1 2 3 l d g singleExample_running singleExample_points show ?thesis
    by simp
qed

end
